theory Spec2Isabelle
  imports Complex_Main "HOL-Library.Word" "HOL-Library.Log_Nat"
begin

unbundle bit_operations_syntax

section \<open>Single-precision arithmetic\<close>

text \<open>
  The generator and the playback engine compute in C++ \<^verbatim>\<open>float\<close> (IEEE 754 binary32,
  round to nearest, ties to even). A finite float is modelled by the real number it
  denotes, and every operation is the exact operation followed by \<open>f32_round\<close>.
  Infinities and NaN (magnitudes of \<open>2 ^ 128\<close> and more, division by zero) are outside the
  model; C++ \<^verbatim>\<open>int\<close> is modelled by \<open>int\<close>, without overflow.
\<close>

definition round_half_even :: "real \<Rightarrow> int" where
  "round_half_even q =
     (let f = \<lfloor>q\<rfloor>; r = q - of_int f
      in if r < 1 / 2 then f else if 1 / 2 < r then f + 1 else if even f then f else f + 1)"

definition floor_log2 :: "real \<Rightarrow> int" where
  "floor_log2 x = (if 1 \<le> x then bitlen \<lfloor>x\<rfloor> - 1 else - bitlen (\<lceil>1 / x\<rceil> - 1))"

definition f32_ulp_exp :: "real \<Rightarrow> int" where
  "f32_ulp_exp x = max (floor_log2 \<bar>x\<bar> - 23) (- 149)"

definition f32_round :: "real \<Rightarrow> real" where
  "f32_round x =
     (if x = 0 then 0
      else let e = f32_ulp_exp x in of_int (round_half_even (x / 2 powi e)) * 2 powi e)"

definition fadd :: "real \<Rightarrow> real \<Rightarrow> real" where
  "fadd x y = f32_round (x + y)"

definition fsub :: "real \<Rightarrow> real \<Rightarrow> real" where
  "fsub x y = f32_round (x - y)"

definition fmul :: "real \<Rightarrow> real \<Rightarrow> real" where
  "fmul x y = f32_round (x * y)"

definition fdiv :: "real \<Rightarrow> real \<Rightarrow> real" where
  "fdiv x y = f32_round (x / y)"

definition float_of_int :: "int \<Rightarrow> real" where
  "float_of_int n = f32_round (of_int n)"

definition float_of_u32 :: "32 word \<Rightarrow> real" where
  "float_of_u32 t = f32_round (of_int (uint t))"

text \<open>\<^verbatim>\<open>std::round\<close>: to the nearest integer, halfway cases away from zero.\<close>

definition std_round :: "real \<Rightarrow> int" where
  "std_round x = (if 0 \<le> x then \<lfloor>x + 1 / 2\<rfloor> else \<lceil>x - 1 / 2\<rceil>)"

section \<open>SFC32\<close>

record SFC32 =
  sfc_a :: "32 word"
  sfc_b :: "32 word"
  sfc_c :: "32 word"
  sfc_d :: "32 word"

definition SFC32_seed :: "32 word \<Rightarrow> SFC32" where
  "SFC32_seed seed = \<lparr>sfc_a = seed, sfc_b = seed, sfc_c = seed, sfc_d = seed\<rparr>"

text \<open>The word \<open>t\<close> that \<^verbatim>\<open>next()\<close> converts, and the state it leaves.\<close>

definition SFC32_draw :: "SFC32 \<Rightarrow> 32 word \<times> SFC32" where
  "SFC32_draw s =
     (let t = sfc_a s + sfc_b s;
          a' = sfc_b s XOR drop_bit 9 (sfc_b s);
          b' = sfc_c s + push_bit 3 (sfc_c s);
          c' = push_bit 21 (sfc_c s) OR drop_bit 11 (sfc_c s);
          d' = sfc_d s + 1;
          t' = t + d';
          c'' = c' + t'
      in (t', \<lparr>sfc_a = a', sfc_b = b', sfc_c = c'', sfc_d = d'\<rparr>))"

definition SFC32_next :: "SFC32 \<Rightarrow> real \<times> SFC32" where
  "SFC32_next s = (let (t, s') = SFC32_draw s in (fdiv (float_of_u32 t) 4294967296, s'))"

definition SFC32_randomInt :: "int \<Rightarrow> int \<Rightarrow> SFC32 \<Rightarrow> int \<times> SFC32" where
  "SFC32_randomInt mn mx s =
     (let (x, s') = SFC32_next s in (\<lfloor>fmul x (float_of_int (mx - mn + 1))\<rfloor> + mn, s'))"


text \<open>The generator state after \<open>n\<close> draws.\<close>

fun draws :: "nat \<Rightarrow> SFC32 \<Rightarrow> SFC32" where
  "draws 0 rng = rng"
| "draws (Suc n) rng = draws n (snd (SFC32_draw rng))"

section \<open>Generator data\<close>

definition MAX_STEPS :: nat where
  "MAX_STEPS = 64"

definition BAR_LEN :: nat where
  "BAR_LEN = 16"

definition SCALE_SIZE :: nat where
  "SCALE_SIZE = 7"

text \<open>C++ integer division and remainder truncate towards zero.\<close>

definition tdiv :: "int \<Rightarrow> int \<Rightarrow> int" where
  "tdiv a b = sgn a * sgn b * (\<bar>a\<bar> div \<bar>b\<bar>)"

definition tmod :: "int \<Rightarrow> int \<Rightarrow> int" where
  "tmod a b = a - b * tdiv a b"

text \<open>
  Reading a fixed-size C++ array at an \<^verbatim>\<open>int\<close> index: outside the array the behaviour is
  undefined, which the model reports as \<open>None\<close>.
\<close>

definition array_at :: "'a list \<Rightarrow> int \<Rightarrow> 'a option" where
  "array_at xs i = (if 0 \<le> i \<and> i < int (length xs) then Some (xs ! nat i) else None)"

datatype error = StepOutOfBounds | PoolOutOfBounds | IntervalOutOfBounds | DivisionByZero

datatype Scale =
    MAJOR | MINOR | DORIAN | MIXOLYDIAN | LYDIAN | PHRYGIAN | LOCRIAN
  | HARMONIC_MINOR | HARMONIC_MAJOR | DORIAN_NR_4 | PHRYGIAN_DOMINANT | MELODIC_MINOR
  | LYDIAN_AUGMENTED | LYDIAN_DOMINANT | HUNGARIAN_MINOR | SUPER_LOCRIAN | SPANISH | BHAIRAV
  | PENTATONIC_MINOR | PENTATONIC_MAJOR | BLUES_MINOR | WHOLE_TONE | CHROMATIC | JAPANESE_IN_SEN

text \<open>\<^verbatim>\<open>static_cast<int>(scale)\<close>; the enumerator \<^verbatim>\<open>NUM_SCALES\<close> is the count, not a scale.\<close>

fun scale_index :: "Scale \<Rightarrow> nat" where
  "scale_index MAJOR = 0"
| "scale_index MINOR = 1"
| "scale_index DORIAN = 2"
| "scale_index MIXOLYDIAN = 3"
| "scale_index LYDIAN = 4"
| "scale_index PHRYGIAN = 5"
| "scale_index LOCRIAN = 6"
| "scale_index HARMONIC_MINOR = 7"
| "scale_index HARMONIC_MAJOR = 8"
| "scale_index DORIAN_NR_4 = 9"
| "scale_index PHRYGIAN_DOMINANT = 10"
| "scale_index MELODIC_MINOR = 11"
| "scale_index LYDIAN_AUGMENTED = 12"
| "scale_index LYDIAN_DOMINANT = 13"
| "scale_index HUNGARIAN_MINOR = 14"
| "scale_index SUPER_LOCRIAN = 15"
| "scale_index SPANISH = 16"
| "scale_index BHAIRAV = 17"
| "scale_index PENTATONIC_MINOR = 18"
| "scale_index PENTATONIC_MAJOR = 19"
| "scale_index BLUES_MINOR = 20"
| "scale_index WHOLE_TONE = 21"
| "scale_index CHROMATIC = 22"
| "scale_index JAPANESE_IN_SEN = 23"

definition NUM_SCALES :: nat where
  "NUM_SCALES = 24"

record ScaleData =
  intervals :: "int list"
  scale_length :: int

definition SCALES :: "ScaleData list" where
  "SCALES =
    [\<lparr>intervals = [0, 2, 4, 5, 7, 9, 11, - 1, - 1, - 1, - 1, - 1], scale_length = 7\<rparr>,
     \<lparr>intervals = [0, 2, 3, 5, 7, 8, 10, - 1, - 1, - 1, - 1, - 1], scale_length = 7\<rparr>,
     \<lparr>intervals = [0, 2, 3, 5, 7, 9, 10, - 1, - 1, - 1, - 1, - 1], scale_length = 7\<rparr>,
     \<lparr>intervals = [0, 2, 4, 5, 7, 9, 10, - 1, - 1, - 1, - 1, - 1], scale_length = 7\<rparr>,
     \<lparr>intervals = [0, 2, 4, 6, 7, 9, 11, - 1, - 1, - 1, - 1, - 1], scale_length = 7\<rparr>,
     \<lparr>intervals = [0, 1, 3, 5, 7, 8, 10, - 1, - 1, - 1, - 1, - 1], scale_length = 7\<rparr>,
     \<lparr>intervals = [0, 1, 3, 5, 6, 8, 10, - 1, - 1, - 1, - 1, - 1], scale_length = 7\<rparr>,
     \<lparr>intervals = [0, 2, 3, 5, 7, 8, 11, - 1, - 1, - 1, - 1, - 1], scale_length = 7\<rparr>,
     \<lparr>intervals = [0, 2, 4, 5, 7, 8, 11, - 1, - 1, - 1, - 1, - 1], scale_length = 7\<rparr>,
     \<lparr>intervals = [0, 2, 3, 6, 7, 9, 10, - 1, - 1, - 1, - 1, - 1], scale_length = 7\<rparr>,
     \<lparr>intervals = [0, 1, 4, 5, 7, 8, 10, - 1, - 1, - 1, - 1, - 1], scale_length = 7\<rparr>,
     \<lparr>intervals = [0, 2, 3, 5, 7, 9, 11, - 1, - 1, - 1, - 1, - 1], scale_length = 7\<rparr>,
     \<lparr>intervals = [0, 2, 4, 6, 8, 9, 11, - 1, - 1, - 1, - 1, - 1], scale_length = 7\<rparr>,
     \<lparr>intervals = [0, 2, 4, 6, 7, 9, 10, - 1, - 1, - 1, - 1, - 1], scale_length = 7\<rparr>,
     \<lparr>intervals = [0, 2, 3, 6, 7, 8, 11, - 1, - 1, - 1, - 1, - 1], scale_length = 7\<rparr>,
     \<lparr>intervals = [0, 1, 3, 4, 6, 8, 10, - 1, - 1, - 1, - 1, - 1], scale_length = 7\<rparr>,
     \<lparr>intervals = [0, 1, 4, 5, 7, 9, 10, - 1, - 1, - 1, - 1, - 1], scale_length = 7\<rparr>,
     \<lparr>intervals = [0, 1, 4, 5, 7, 8, 11, - 1, - 1, - 1, - 1, - 1], scale_length = 7\<rparr>,
     \<lparr>intervals = [0, 3, 5, 7, 10, - 1, - 1, - 1, - 1, - 1, - 1, - 1], scale_length = 5\<rparr>,
     \<lparr>intervals = [0, 2, 4, 7, 9, - 1, - 1, - 1, - 1, - 1, - 1, - 1], scale_length = 5\<rparr>,
     \<lparr>intervals = [0, 3, 5, 6, 7, 10, - 1, - 1, - 1, - 1, - 1, - 1], scale_length = 6\<rparr>,
     \<lparr>intervals = [0, 2, 4, 6, 8, 10, - 1, - 1, - 1, - 1, - 1, - 1], scale_length = 6\<rparr>,
     \<lparr>intervals = [0, 1, 2, 3, 4, 5, 6, 7, 8, 9, 10, 11], scale_length = 12\<rparr>,
     \<lparr>intervals = [0, 1, 5, 7, 10, - 1, - 1, - 1, - 1, - 1, - 1, - 1], scale_length = 5\<rparr>]"

record SequenceStep =
  step_note :: int
  step_octave :: int
  step_accent :: bool
  step_slide :: bool

definition isRest :: "SequenceStep \<Rightarrow> bool" where
  "isRest st = (step_note st < 0)"

definition rest :: SequenceStep where
  "rest = \<lparr>step_note = - 1, step_octave = 0, step_accent = False, step_slide = False\<rparr>"

definition getNoteInScale :: "int \<Rightarrow> Scale \<Rightarrow> int \<Rightarrow> int \<Rightarrow> error + int" where
  "getNoteInScale note scale rootNote octave =
     (if note < 0 then Inr (- 1)
      else
        let scaleData = SCALES ! scale_index scale;
            len = scale_length scaleData;
            wrappedIndex = tmod note len;
            octaveOffset = tdiv note len
        in case array_at (intervals scaleData) wrappedIndex of
             None \<Rightarrow> Inl IntervalOutOfBounds
           | Some v \<Rightarrow> Inr (v + rootNote + 12 * (octave + octaveOffset)))"

section \<open>Master pattern\<close>

record MasterStep =
  notePoolIndex :: int
  octave :: int
  accentProb :: real
  slideProb :: real

record MasterPattern =
  barActivationOrder :: "int list"
  scalePriorityOrder :: "int list"
  steps :: "MasterStep list"
  muted :: "bool list"

text \<open>The default constructor \<^verbatim>\<open>MasterPattern()\<close>.\<close>

definition MasterPattern_init :: MasterPattern where
  "MasterPattern_init =
     \<lparr>barActivationOrder = map int [0..<BAR_LEN],
      scalePriorityOrder = map int [0..<SCALE_SIZE],
      steps = replicate MAX_STEPS
        \<lparr>notePoolIndex = 0, octave = 0, accentProb = 1 / 2, slideProb = 1 / 2\<rparr>,
      muted = replicate MAX_STEPS False\<rparr>"

text \<open>The search loop of \<^verbatim>\<open>isStepActive\<close>, from index \<open>i\<close> on.\<close>

function isStepActive_loop :: "int list \<Rightarrow> int \<Rightarrow> int \<Rightarrow> int \<Rightarrow> bool" where
  "isStepActive_loop order barPos activeCount i =
     (if i < activeCount \<and> i < int BAR_LEN
      then (if order ! nat i = barPos then True
            else isStepActive_loop order barPos activeCount (i + 1))
      else False)"
  by pat_completeness auto
termination
  by (relation "measure (\<lambda>(order, barPos, activeCount, i). nat (int BAR_LEN - i))") auto

declare isStepActive_loop.simps [simp del]

definition activeCount_of :: "real \<Rightarrow> int" where
  "activeCount_of density =
     max 0 (std_round (fdiv (fmul (float_of_int (int BAR_LEN)) density) 100))"

definition isStepActive :: "MasterPattern \<Rightarrow> int \<Rightarrow> real \<Rightarrow> bool" where
  "isStepActive mp step density =
     (let barPos = tmod step (int BAR_LEN);
          activeCount = activeCount_of density
      in isStepActive_loop (barActivationOrder mp) barPos activeCount 0)"

definition getScaleDegree :: "MasterPattern \<Rightarrow> int \<Rightarrow> real \<Rightarrow> bool \<Rightarrow> error + int" where
  "getScaleDegree mp step spread quantizeToPool =
     (case array_at (steps mp) step of
        None \<Rightarrow> Inl StepOutOfBounds
      | Some ms \<Rightarrow>
          let spreadCount = max 1 (std_round (fdiv (fmul (float_of_int (int SCALE_SIZE)) spread) 100))
          in if notePoolIndex ms < spreadCount
             then (case array_at (scalePriorityOrder mp) (notePoolIndex ms) of
                     None \<Rightarrow> Inl PoolOutOfBounds
                   | Some d \<Rightarrow> Inr d)
             else if quantizeToPool then Inr (scalePriorityOrder mp ! 0)
             else Inr (- 1))"

function findNotePoolIndex_loop :: "int list \<Rightarrow> int \<Rightarrow> nat \<Rightarrow> int" where
  "findNotePoolIndex_loop order scaleDegree i =
     (if i < SCALE_SIZE
      then (if order ! i = scaleDegree then int i
            else findNotePoolIndex_loop order scaleDegree (i + 1))
      else 0)"
  by pat_completeness auto
termination
  by (relation "measure (\<lambda>(order, scaleDegree, i). SCALE_SIZE - i)") auto

declare findNotePoolIndex_loop.simps [simp del]

definition findNotePoolIndex :: "MasterPattern \<Rightarrow> int \<Rightarrow> int" where
  "findNotePoolIndex mp scaleDegree = findNotePoolIndex_loop (scalePriorityOrder mp) scaleDegree 0"

definition clearMutes :: "MasterPattern \<Rightarrow> MasterPattern" where
  "clearMutes mp = mp\<lparr>muted := fold (\<lambda>i m. m[i := False]) [0..<MAX_STEPS] (muted mp)\<rparr>"

definition getStep ::
  "MasterPattern \<Rightarrow> int \<Rightarrow> real \<Rightarrow> real \<Rightarrow> real \<Rightarrow> real \<Rightarrow> bool \<Rightarrow> error + SequenceStep" where
  "getStep mp step density spread accentsDensity slidesDensity quantizeToPool =
     (case array_at (muted mp) step of
        None \<Rightarrow> Inl StepOutOfBounds
      | Some m \<Rightarrow>
          if m then Inr rest
          else if \<not> isStepActive mp step density then Inr rest
          else
            (case getScaleDegree mp step spread quantizeToPool of
               Inl e \<Rightarrow> Inl e
             | Inr scaleDegree \<Rightarrow>
                 if scaleDegree < 0 then Inr rest
                 else
                   (case array_at (steps mp) step of
                      None \<Rightarrow> Inl StepOutOfBounds
                    | Some ms \<Rightarrow>
                        Inr \<lparr>step_note = scaleDegree,
                             step_octave = octave ms,
                             step_accent = (accentProb ms < fdiv accentsDensity 100),
                             step_slide = (slideProb ms < fdiv slidesDensity 100)\<rparr>)))"

text \<open>
  What the C++ types guarantee of a pattern: the sizes of its four arrays, and that the
  thresholds are \<^verbatim>\<open>float\<close> values.
\<close>

definition array_sizes :: "MasterPattern \<Rightarrow> bool" where
  "array_sizes mp =
     (length (barActivationOrder mp) = BAR_LEN \<and> length (scalePriorityOrder mp) = SCALE_SIZE
      \<and> length (steps mp) = MAX_STEPS \<and> length (muted mp) = MAX_STEPS)"

definition is_float :: "real \<Rightarrow> bool" where
  "is_float x = (f32_round x = x)"

definition float_fields :: "MasterPattern \<Rightarrow> bool" where
  "float_fields mp =
     list_all (\<lambda>ms. is_float (accentProb ms) \<and> is_float (slideProb ms)) (steps mp)"

section \<open>generateMaster\<close>

text \<open>A loop \<^verbatim>\<open>for (i = ...) arr[i] = f(i)\<close> whose body draws from the generator.\<close>

fun fill_loop :: "(nat \<Rightarrow> SFC32 \<Rightarrow> 'a \<times> SFC32) \<Rightarrow> nat list \<Rightarrow> SFC32 \<Rightarrow> 'a list \<times> SFC32" where
  "fill_loop f [] rng = ([], rng)"
| "fill_loop f (i # is) rng =
     (let (x, rng') = f i rng; (xs, rng'') = fill_loop f is rng' in (x # xs, rng''))"

text \<open>\<^verbatim>\<open>WeightedNote\<close> and \<^verbatim>\<open>WeightedStep\<close>: an index and its weight.\<close>

type_synonym Weighted = "int \<times> real"

definition scaleWeight :: "nat \<Rightarrow> SFC32 \<Rightarrow> Weighted \<times> SFC32" where
  "scaleWeight i rng =
     (let (weight, rng') = SFC32_next rng;
          weight = (if i = 0 then fadd weight 999 else weight);
          weight = (if i = 4 then fadd weight (1 / 2) else weight)
      in ((int i, weight), rng'))"

definition barWeight :: "nat \<Rightarrow> SFC32 \<Rightarrow> Weighted \<times> SFC32" where
  "barWeight i rng =
     (let (weight, rng') = SFC32_next rng;
          weight = (if i mod 4 = 0 then fadd weight (1 / 2) else weight);
          weight = (if i = 0 then fadd weight (1 / 2) else weight)
      in ((int i, weight), rng'))"

text \<open>The bubble sort by descending weight: the inner loop from \<open>j\<close>, the outer from \<open>i\<close>.\<close>

function bubble_inner :: "nat \<Rightarrow> nat \<Rightarrow> Weighted list \<Rightarrow> Weighted list" where
  "bubble_inner j bound ws =
     (if j < bound
      then bubble_inner (j + 1) bound
             (if snd (ws ! j) < snd (ws ! (j + 1))
              then ws[j := ws ! (j + 1), j + 1 := ws ! j] else ws)
      else ws)"
  by pat_completeness auto
termination
  by (relation "measure (\<lambda>(j, bound, ws). bound - j)") auto

declare bubble_inner.simps [simp del]

function bubble_outer :: "nat \<Rightarrow> nat \<Rightarrow> Weighted list \<Rightarrow> Weighted list" where
  "bubble_outer i n ws =
     (if i < n - 1 then bubble_outer (i + 1) n (bubble_inner 0 (n - i - 1) ws) else ws)"
  by pat_completeness auto
termination
  by (relation "measure (\<lambda>(i, n, ws). n - i)") auto

declare bubble_outer.simps [simp del]

definition stepContent :: "nat \<Rightarrow> SFC32 \<Rightarrow> MasterStep \<times> SFC32" where
  "stepContent i rng =
     (let isDownbeat = (i mod 4 = 0);
          (npi, rng1) =
            (if isDownbeat
             then (let (x, r) = SFC32_next rng
                   in if f32_round (3 / 10) < x then (0, r)
                      else SFC32_randomInt 0 (int SCALE_SIZE - 1) r)
             else SFC32_randomInt 0 (int SCALE_SIZE - 1) rng);
          (oct, rng2) = SFC32_randomInt (- 1) 1 rng1;
          (ap, rng3) = SFC32_next rng2;
          (sp, rng4) = SFC32_next rng3
      in (\<lparr>notePoolIndex = npi, octave = oct, accentProb = ap, slideProb = sp\<rparr>, rng4))"

definition generateMaster :: "32 word \<Rightarrow> MasterPattern \<Rightarrow> MasterPattern" where
  "generateMaster seed output =
     (let rng = SFC32_seed seed;
          (weightedScale, rng1) = fill_loop scaleWeight [0..<SCALE_SIZE] rng;
          weightedScale = bubble_outer 0 SCALE_SIZE weightedScale;
          (weightedBarSteps, rng2) = fill_loop barWeight [0..<BAR_LEN] rng1;
          weightedBarSteps = bubble_outer 0 BAR_LEN weightedBarSteps;
          (stepList, rng3) = fill_loop stepContent [0..<MAX_STEPS] rng2
      in output\<lparr>scalePriorityOrder := map fst weightedScale,
                barActivationOrder := map fst weightedBarSteps,
                steps := stepList\<rparr>)"


text \<open>The first entry carries the largest weight, and no pass of the sort moves it.\<close>

definition head_max :: "Weighted list \<Rightarrow> bool" where
  "head_max ws = (\<forall>k < length ws. snd (ws ! k) \<le> snd (ws ! 0))"

section \<open>Playback engine\<close>

text \<open>
  \<^verbatim>\<open>dsp::PulseGenerator\<close> belongs to the host SDK: a countdown \<open>remaining\<close> that
  \<^verbatim>\<open>trigger\<close> arms (never shortening a longer pulse) and \<^verbatim>\<open>process\<close> advances by one
  sample, reporting whether the pulse is high. The edge detectors of the host are inputs:
  \<open>ProcessInput\<close> carries what they report for the sample, the parameter values after
  their casts, and \<^verbatim>\<open>std::time\<close> as \<open>timeNow\<close>.
\<close>

record PulseGenerator =
  remaining :: real

definition pulse_trigger :: "real \<Rightarrow> PulseGenerator \<Rightarrow> PulseGenerator" where
  "pulse_trigger duration p = (if remaining p < duration then p\<lparr>remaining := duration\<rparr> else p)"

definition pulse_process :: "real \<Rightarrow> PulseGenerator \<Rightarrow> bool \<times> PulseGenerator" where
  "pulse_process deltaTime p =
     (if 0 < remaining p then (True, p\<lparr>remaining := fsub (remaining p) deltaTime\<rparr>)
      else (False, p))"

record AcidSeq =
  gatePulse :: PulseGenerator
  accentPulse :: PulseGenerator
  masterPattern :: MasterPattern
  displayPattern :: "SequenceStep list"
  cachedDensity :: real
  cachedSpread :: real
  cachedAccentDensity :: real
  cachedSlideDensity :: real
  forceDisplayRefresh :: bool
  currentStep :: int
  currentSlideActive :: bool
  slideTargetPitch :: real
  currentPitch :: real
  slideRate :: real
  timeSinceLastClock :: real
  measuredClockPeriod :: real
  retriggerGapRemaining :: real
  generateLightBrightness :: real
  currentSeed :: "32 word"
  cachedPatternLength :: int
  cachedScale :: Scale
  cachedRootNote :: int
  out_pitch :: real
  out_gate :: real
  out_accent :: real
  out_slide :: real
  light_generate :: real
  light_step :: "real list"

record ProcessInput =
  in_patternLength :: int
  in_scale :: Scale
  in_rootNote :: int
  in_octaveOffset :: int
  in_density :: real
  in_spread :: real
  in_accentDensity :: real
  in_slideDensity :: real
  in_generate :: bool
  in_reset :: bool
  in_clockRising :: bool
  sampleTime :: real
  sampleRate :: real
  timeNow :: "32 word"

text \<open>
  The member initialisers of the module: the state in which the constructor body starts,
  with the default-constructed patterns.
\<close>

definition AcidSeq_default :: AcidSeq where
  "AcidSeq_default =
     \<lparr>gatePulse = \<lparr>remaining = 0\<rparr>,
      accentPulse = \<lparr>remaining = 0\<rparr>,
      masterPattern = MasterPattern_init,
      displayPattern = replicate MAX_STEPS rest,
      cachedDensity = - 1,
      cachedSpread = - 1,
      cachedAccentDensity = - 1,
      cachedSlideDensity = - 1,
      forceDisplayRefresh = False,
      currentStep = - 1,
      currentSlideActive = False,
      slideTargetPitch = 0,
      currentPitch = 0,
      slideRate = 0,
      timeSinceLastClock = 0,
      measuredClockPeriod = 1 / 8,
      retriggerGapRemaining = 0,
      generateLightBrightness = 0,
      currentSeed = 12345,
      cachedPatternLength = 16,
      cachedScale = MINOR,
      cachedRootNote = 0,
      out_pitch = 0,
      out_gate = 0,
      out_accent = 0,
      out_slide = 0,
      light_generate = 0,
      light_step = replicate 16 0\<rparr>"

definition RETRIGGER_GAP_TIME :: real where
  "RETRIGGER_GAP_TIME = f32_round (1 / 1000)"

definition bindE :: "error + 'a \<Rightarrow> ('a \<Rightarrow> error + 'b) \<Rightarrow> error + 'b" where
  "bindE m f = (case m of Inl e \<Rightarrow> Inl e | Inr x \<Rightarrow> f x)"

primrec collectE :: "(error + 'a) list \<Rightarrow> error + 'a list" where
  "collectE [] = Inr []"
| "collectE (m # ms) = bindE m (\<lambda>x. bindE (collectE ms) (\<lambda>xs. Inr (x # xs)))"

definition generateNewPattern :: "32 word \<Rightarrow> AcidSeq \<Rightarrow> AcidSeq" where
  "generateNewPattern now s =
     (let seed = now XOR (currentSeed s * 1664525 + 1013904223);
          mp = clearMutes (generateMaster seed (masterPattern s))
      in s\<lparr>currentSeed := seed, masterPattern := mp, cachedDensity := - 1,
            generateLightBrightness := 1\<rparr>)"

definition updateDisplayPattern :: "ProcessInput \<Rightarrow> AcidSeq \<Rightarrow> error + AcidSeq" where
  "updateDisplayPattern inp s =
     (if \<not> forceDisplayRefresh s \<and> in_density inp = cachedDensity s
         \<and> in_spread inp = cachedSpread s \<and> in_accentDensity inp = cachedAccentDensity s
         \<and> in_slideDensity inp = cachedSlideDensity s
      then Inr s
      else
        bindE (collectE (map (\<lambda>i. getStep (masterPattern s) (int i) (in_density inp)
                 (in_spread inp) (in_accentDensity inp) (in_slideDensity inp) True)
               [0..<MAX_STEPS]))
          (\<lambda>sts. Inr (s\<lparr>forceDisplayRefresh := False, cachedDensity := in_density inp,
                 cachedSpread := in_spread inp, cachedAccentDensity := in_accentDensity inp,
                 cachedSlideDensity := in_slideDensity inp, displayPattern := sts\<rparr>)))"

definition advanceStep :: "int \<Rightarrow> int \<Rightarrow> int" where
  "advanceStep cur len = (let c = cur + 1 in if len \<le> c then 0 else c)"

text \<open>Sliding into a note: portamento towards the new pitch, no retrigger.\<close>

definition slideInto :: "ProcessInput \<Rightarrow> SequenceStep \<Rightarrow> real \<Rightarrow> AcidSeq \<Rightarrow> AcidSeq" where
  "slideInto inp st pitchVoltage s =
     (let s1 = s\<lparr>slideTargetPitch := pitchVoltage\<rparr>;
          s2 = s1\<lparr>slideRate := fdiv (fsub (slideTargetPitch s1) (currentPitch s1))
                                 (fmul (f32_round (1 / 20)) (sampleRate inp))\<rparr>
      in if step_slide st
         then s2\<lparr>gatePulse := pulse_trigger (fmul (measuredClockPeriod s2) (f32_round (11 / 10)))
                                (gatePulse s2)\<rparr>
         else s2)"

text \<open>Normal attack: the pitch is set at once and the gate retriggers.\<close>

definition normalAttack :: "SequenceStep \<Rightarrow> real \<Rightarrow> AcidSeq \<Rightarrow> AcidSeq" where
  "normalAttack st pitchVoltage s =
     (let s1 = s\<lparr>currentPitch := pitchVoltage, slideTargetPitch := pitchVoltage, slideRate := 0\<rparr>;
          s2 = (if 0 < remaining (gatePulse s1)
                then s1\<lparr>retriggerGapRemaining := RETRIGGER_GAP_TIME\<rparr> else s1);
          gateTime = (if step_slide st then fmul (measuredClockPeriod s2) (f32_round (11 / 10))
                      else f32_round (1 / 50));
          s3 = s2\<lparr>gatePulse := pulse_trigger gateTime (gatePulse s2)\<rparr>
      in if step_accent st then s3\<lparr>accentPulse := pulse_trigger gateTime (accentPulse s3)\<rparr>
         else s3)"

definition resolve :: "ProcessInput \<Rightarrow> AcidSeq \<Rightarrow> int \<Rightarrow> error + SequenceStep" where
  "resolve inp s i =
     getStep (masterPattern s) i (in_density inp) (in_spread inp) (in_accentDensity inp)
       (in_slideDensity inp) True"

text \<open>The body of \<^verbatim>\<open>if (clockRising)\<close> after the step index has advanced.\<close>

definition playStep :: "ProcessInput \<Rightarrow> AcidSeq \<Rightarrow> error + AcidSeq" where
  "playStep inp s =
     bindE (resolve inp s (currentStep s)) (\<lambda>st.
       if \<not> isRest st
       then
         bindE (getNoteInScale (step_note st) (in_scale inp) (in_rootNote inp)
                  (step_octave st + in_octaveOffset inp)) (\<lambda>midiNote.
           let pitchVoltage = fdiv (float_of_int midiNote) 12
           in if in_patternLength inp = 0 then Inl DivisionByZero
              else
                let prevStep = tmod (currentStep s - 1 + in_patternLength inp) (in_patternLength inp)
                in bindE (resolve inp s prevStep) (\<lambda>prevStepData.
                     let slideFromPrev = (\<not> isRest prevStepData \<and> step_slide prevStepData);
                         s' = (if slideFromPrev then slideInto inp st pitchVoltage s
                               else normalAttack st pitchVoltage s)
                     in Inr (s'\<lparr>currentSlideActive := step_slide st\<rparr>)))
       else Inr (s\<lparr>currentSlideActive := False\<rparr>))"

definition handleClock :: "ProcessInput \<Rightarrow> AcidSeq \<Rightarrow> error + AcidSeq" where
  "handleClock inp s =
     (let s1 = (if f32_round (1 / 100) < timeSinceLastClock s \<and> timeSinceLastClock s < 2
                then s\<lparr>measuredClockPeriod := timeSinceLastClock s\<rparr> else s);
          s2 = s1\<lparr>timeSinceLastClock := 0\<rparr>;
          s3 = s2\<lparr>currentStep := advanceStep (currentStep s2) (in_patternLength inp)\<rparr>
      in playStep inp s3)"

definition processSlide :: "AcidSeq \<Rightarrow> AcidSeq" where
  "processSlide s =
     (if slideRate s \<noteq> 0
      then
        let s1 = s\<lparr>currentPitch := fadd (currentPitch s) (slideRate s)\<rparr>
        in if (0 < slideRate s1 \<and> slideTargetPitch s1 \<le> currentPitch s1)
              \<or> (slideRate s1 < 0 \<and> currentPitch s1 \<le> slideTargetPitch s1)
           then s1\<lparr>currentPitch := slideTargetPitch s1, slideRate := 0\<rparr>
           else s1
      else s)"

definition setOutputs :: "ProcessInput \<Rightarrow> AcidSeq \<Rightarrow> error + AcidSeq" where
  "setOutputs inp s =
     (let s1 = s\<lparr>out_pitch := currentPitch s\<rparr>;
          (gateHigh, gp) = pulse_process (sampleTime inp) (gatePulse s1);
          s2 = s1\<lparr>gatePulse := gp\<rparr>;
          s3 = (if 0 < retriggerGapRemaining s2
                then s2\<lparr>retriggerGapRemaining := fsub (retriggerGapRemaining s2) (sampleTime inp),
                        out_gate := 0\<rparr>
                else s2\<lparr>out_gate := (if gateHigh then 10 else 0)\<rparr>);
          (accentHigh, ap) = pulse_process (sampleTime inp) (accentPulse s3);
          s4 = s3\<lparr>accentPulse := ap, out_accent := (if accentHigh then 10 else 0)\<rparr>
      in if 0 \<le> currentStep s4 \<and> currentStep s4 < in_patternLength inp
         then bindE (resolve inp s4 (currentStep s4))
                (\<lambda>st. Inr (s4\<lparr>out_slide := (if step_slide st then 10 else 0)\<rparr>))
         else Inr s4)"

definition updateLights :: "ProcessInput \<Rightarrow> AcidSeq \<Rightarrow> AcidSeq" where
  "updateLights inp s =
     (let s1 = s\<lparr>generateLightBrightness :=
                   fmul (generateLightBrightness s) (fsub 1 (fmul (sampleTime inp) 4))\<rparr>;
          s2 = s1\<lparr>light_generate := generateLightBrightness s1\<rparr>
      in s2\<lparr>light_step :=
              map (\<lambda>i. let isCurrentStep = (currentStep s2 = int i);
                            hasNote = (int i < in_patternLength inp
                                       \<and> \<not> isRest (displayPattern s2 ! i))
                        in if isCurrentStep then 1
                           else if hasNote then f32_round (15 / 100) else 0)
                [0..<16]\<rparr>)"

text \<open>The generate and reset triggers, and the time accumulated for the clock period.\<close>

definition handleTriggers :: "ProcessInput \<Rightarrow> AcidSeq \<Rightarrow> AcidSeq" where
  "handleTriggers inp s =
     (let s1 = (if in_generate inp then generateNewPattern (timeNow inp) s else s);
          s2 = (if in_reset inp
                then s1\<lparr>currentStep := - 1, currentSlideActive := False,
                        retriggerGapRemaining := 0\<rparr>
                else s1)
      in s2\<lparr>timeSinceLastClock := fadd (timeSinceLastClock s2) (sampleTime inp)\<rparr>)"

definition process :: "ProcessInput \<Rightarrow> AcidSeq \<Rightarrow> error + AcidSeq" where
  "process inp s =
     (let s1 = s\<lparr>cachedPatternLength := in_patternLength inp, cachedScale := in_scale inp,
                 cachedRootNote := in_rootNote inp\<rparr>
      in bindE (updateDisplayPattern inp s1) (\<lambda>s2.
           let s3 = handleTriggers inp s2
           in bindE (if in_clockRising inp then handleClock inp s3 else Inr s3) (\<lambda>s4.
                bindE (setOutputs inp (processSlide s4)) (\<lambda>s5. Inr (updateLights inp s5)))))"

text \<open>Concrete inputs and states for the examples below.\<close>

definition example_input :: ProcessInput where
  "example_input =
     \<lparr>in_patternLength = 16, in_scale = MAJOR, in_rootNote = 0, in_octaveOffset = 0,
      in_density = 50, in_spread = 50, in_accentDensity = 25, in_slideDensity = 15,
      in_generate = False, in_reset = False, in_clockRising = True,
      sampleTime = 1 / 32768, sampleRate = 32768, timeNow = 0\<rparr>"

definition example_state :: AcidSeq where
  "example_state =
     AcidSeq_default\<lparr>cachedDensity := 50, cachedSpread := 50, cachedAccentDensity := 25,
       cachedSlideDensity := 15\<rparr>"

section \<open>Saved state\<close>

text \<open>
  The JSON library's values, and the functions of its interface that the module calls.
  A \<^verbatim>\<open>json_t*\<close> that may be null is a \<open>json option\<close>.
\<close>

datatype json =
    JNull | JTrue | JFalse | JInteger int | JReal real | JString string
  | JArray "json list" | JObject "(string \<times> json) list"

fun alist_set :: "string \<Rightarrow> json \<Rightarrow> (string \<times> json) list \<Rightarrow> (string \<times> json) list" where
  "alist_set k v [] = [(k, v)]"
| "alist_set k v ((k', v') # kvs) =
     (if k = k' then (k, v) # kvs else (k', v') # alist_set k v kvs)"

definition json_object_set_new :: "json \<Rightarrow> string \<Rightarrow> json \<Rightarrow> json" where
  "json_object_set_new obj key v =
     (case obj of JObject kvs \<Rightarrow> JObject (alist_set key v kvs) | _ \<Rightarrow> obj)"

definition json_array_append_new :: "json \<Rightarrow> json \<Rightarrow> json" where
  "json_array_append_new arr v = (case arr of JArray vs \<Rightarrow> JArray (vs @ [v]) | _ \<Rightarrow> arr)"

definition json_boolean :: "bool \<Rightarrow> json" where
  "json_boolean b = (if b then JTrue else JFalse)"

definition json_object_get :: "json \<Rightarrow> string \<Rightarrow> json option" where
  "json_object_get obj key = (case obj of JObject kvs \<Rightarrow> map_of kvs key | _ \<Rightarrow> None)"

definition json_array_size :: "json \<Rightarrow> nat" where
  "json_array_size arr = (case arr of JArray vs \<Rightarrow> length vs | _ \<Rightarrow> 0)"

definition json_array_get :: "json \<Rightarrow> nat \<Rightarrow> json option" where
  "json_array_get arr i =
     (case arr of JArray vs \<Rightarrow> (if i < length vs then Some (vs ! i) else None) | _ \<Rightarrow> None)"

definition json_integer_value :: "json option \<Rightarrow> int" where
  "json_integer_value j = (case j of Some (JInteger n) \<Rightarrow> n | _ \<Rightarrow> 0)"

definition json_real_value :: "json option \<Rightarrow> real" where
  "json_real_value j = (case j of Some (JReal x) \<Rightarrow> x | _ \<Rightarrow> 0)"

definition json_boolean_value :: "json option \<Rightarrow> bool" where
  "json_boolean_value j = (case j of Some JTrue \<Rightarrow> True | _ \<Rightarrow> False)"

definition JSON_VERSION :: int where
  "JSON_VERSION = 3"

definition stepToJson :: "MasterPattern \<Rightarrow> nat \<Rightarrow> json" where
  "stepToJson mp i =
     (let stepJ = JObject [];
          stepJ = json_object_set_new stepJ ''p'' (JInteger (notePoolIndex (steps mp ! i)));
          stepJ = json_object_set_new stepJ ''o'' (JInteger (octave (steps mp ! i)));
          stepJ = json_object_set_new stepJ ''a'' (JReal (accentProb (steps mp ! i)));
          stepJ = json_object_set_new stepJ ''s'' (JReal (slideProb (steps mp ! i)));
          stepJ = json_object_set_new stepJ ''m'' (json_boolean (muted mp ! i))
      in stepJ)"

definition dataToJson :: "AcidSeq \<Rightarrow> json" where
  "dataToJson s =
     (let rootJ = JObject [];
          rootJ = json_object_set_new rootJ ''version'' (JInteger JSON_VERSION);
          rootJ = json_object_set_new rootJ ''seed'' (JInteger (uint (currentSeed s)));
          rootJ = json_object_set_new rootJ ''currentStep'' (JInteger (currentStep s));
          masterJ = JObject [];
          barOrderJ = fold (\<lambda>i arr. json_array_append_new arr
                              (JInteger (barActivationOrder (masterPattern s) ! i)))
                        [0..<BAR_LEN] (JArray []);
          masterJ = json_object_set_new masterJ ''barActivationOrder'' barOrderJ;
          scaleOrderJ = fold (\<lambda>i arr. json_array_append_new arr
                                (JInteger (scalePriorityOrder (masterPattern s) ! i)))
                          [0..<SCALE_SIZE] (JArray []);
          masterJ = json_object_set_new masterJ ''scalePriorityOrder'' scaleOrderJ;
          stepsJ = fold (\<lambda>i arr. json_array_append_new arr (stepToJson (masterPattern s) i))
                     [0..<MAX_STEPS] (JArray []);
          masterJ = json_object_set_new masterJ ''steps'' stepsJ;
          rootJ = json_object_set_new rootJ ''masterPattern'' masterJ;
          rootJ = json_object_set_new rootJ ''currentSlideActive''
                    (json_boolean (currentSlideActive s));
          rootJ = json_object_set_new rootJ ''currentPitch'' (JReal (currentPitch s));
          rootJ = json_object_set_new rootJ ''slideTargetPitch'' (JReal (slideTargetPitch s));
          rootJ = json_object_set_new rootJ ''slideRate'' (JReal (slideRate s))
      in rootJ)"

definition loadStep :: "json \<Rightarrow> nat \<Rightarrow> MasterPattern \<Rightarrow> MasterPattern" where
  "loadStep stepsJ i mp =
     (case json_array_get stepsJ i of
        None \<Rightarrow> mp
      | Some stepDataJ \<Rightarrow>
          let pJ = json_object_get stepDataJ ''p'';
              oJ = json_object_get stepDataJ ''o'';
              aJ = json_object_get stepDataJ ''a'';
              sJ = json_object_get stepDataJ ''s'';
              mJ = json_object_get stepDataJ ''m'';
              mp = (if pJ \<noteq> None
                    then mp\<lparr>steps := (steps mp)[i := (steps mp ! i)
                           \<lparr>notePoolIndex := json_integer_value pJ\<rparr>]\<rparr> else mp);
              mp = (if oJ \<noteq> None
                    then mp\<lparr>steps := (steps mp)[i := (steps mp ! i)
                           \<lparr>octave := json_integer_value oJ\<rparr>]\<rparr> else mp);
              mp = (if aJ \<noteq> None
                    then mp\<lparr>steps := (steps mp)[i := (steps mp ! i)
                           \<lparr>accentProb := f32_round (json_real_value aJ)\<rparr>]\<rparr> else mp);
              mp = (if sJ \<noteq> None
                    then mp\<lparr>steps := (steps mp)[i := (steps mp ! i)
                           \<lparr>slideProb := f32_round (json_real_value sJ)\<rparr>]\<rparr> else mp);
              mp = (if mJ \<noteq> None
                    then mp\<lparr>muted := (muted mp)[i := json_boolean_value mJ]\<rparr> else mp)
          in mp)"

definition loadMaster :: "json \<Rightarrow> MasterPattern \<Rightarrow> MasterPattern" where
  "loadMaster masterJ mp =
     (let mp = (case json_object_get masterJ ''barActivationOrder'' of
                  None \<Rightarrow> mp
                | Some barOrderJ \<Rightarrow>
                    fold (\<lambda>i m. m\<lparr>barActivationOrder := (barActivationOrder m)
                            [i := json_integer_value (json_array_get barOrderJ i)]\<rparr>)
                      [0..<min BAR_LEN (json_array_size barOrderJ)] mp);
          mp = (case json_object_get masterJ ''scalePriorityOrder'' of
                  None \<Rightarrow> mp
                | Some scaleOrderJ \<Rightarrow>
                    fold (\<lambda>i m. m\<lparr>scalePriorityOrder := (scalePriorityOrder m)
                            [i := json_integer_value (json_array_get scaleOrderJ i)]\<rparr>)
                      [0..<min SCALE_SIZE (json_array_size scaleOrderJ)] mp);
          mp = (case json_object_get masterJ ''steps'' of
                  None \<Rightarrow> mp
                | Some stepsJ \<Rightarrow>
                    fold (loadStep stepsJ) [0..<min MAX_STEPS (json_array_size stepsJ)] mp)
      in mp)"

definition dataFromJson :: "json \<Rightarrow> AcidSeq \<Rightarrow> AcidSeq" where
  "dataFromJson rootJ s =
     (let versionJ = json_object_get rootJ ''version'';
          version = (if versionJ \<noteq> None then json_integer_value versionJ else 0);
          seedJ = json_object_get rootJ ''seed'';
          s = (if seedJ \<noteq> None then s\<lparr>currentSeed := word_of_int (json_integer_value seedJ)\<rparr>
               else s);
          stepJ = json_object_get rootJ ''currentStep'';
          s = (if stepJ \<noteq> None then s\<lparr>currentStep := json_integer_value stepJ\<rparr> else s);
          s = (case json_object_get rootJ ''masterPattern'' of
                 Some masterJ \<Rightarrow>
                   if 2 \<le> version then s\<lparr>masterPattern := loadMaster masterJ (masterPattern s)\<rparr>
                   else s\<lparr>masterPattern := generateMaster (currentSeed s) (masterPattern s)\<rparr>
               | None \<Rightarrow> s\<lparr>masterPattern := generateMaster (currentSeed s) (masterPattern s)\<rparr>);
          s = s\<lparr>cachedDensity := - 1\<rparr>;
          slideActiveJ = json_object_get rootJ ''currentSlideActive'';
          s = (if slideActiveJ \<noteq> None
               then s\<lparr>currentSlideActive := json_boolean_value slideActiveJ\<rparr> else s);
          currentPitchJ = json_object_get rootJ ''currentPitch'';
          s = (if currentPitchJ \<noteq> None
               then s\<lparr>currentPitch := f32_round (json_real_value currentPitchJ)\<rparr> else s);
          slideTargetJ = json_object_get rootJ ''slideTargetPitch'';
          s = (if slideTargetJ \<noteq> None
               then s\<lparr>slideTargetPitch := f32_round (json_real_value slideTargetJ)\<rparr> else s);
          slideRateJ = json_object_get rootJ ''slideRate'';
          s = (if slideRateJ \<noteq> None
               then s\<lparr>slideRate := f32_round (json_real_value slideRateJ)\<rparr> else s)
      in s)"


section \<open>Properties of the rounding\<close>

lemma round_half_even_bounds: "\<lfloor>q\<rfloor> \<le> round_half_even q \<and> round_half_even q \<le> \<lfloor>q\<rfloor> + 1"
  by (simp add: round_half_even_def Let_def)

lemma round_half_even_of_int: "round_half_even (of_int n) = n"
  by (simp add: round_half_even_def)

lemma round_half_even_mono:
  assumes "q \<le> q'"
  shows "round_half_even q \<le> round_half_even q'"
proof (cases "\<lfloor>q\<rfloor> = \<lfloor>q'\<rfloor>")
  case True
  then show ?thesis
    using assms by (auto simp: round_half_even_def Let_def)
next
  case False
  then have "\<lfloor>q\<rfloor> + 1 \<le> \<lfloor>q'\<rfloor>"
    using floor_mono [OF assms] by linarith
  then show ?thesis
    using round_half_even_bounds [of q] round_half_even_bounds [of q'] by linarith
qed

lemma round_half_even_minus: "round_half_even (- q) = - round_half_even q"
proof (cases "q \<in> \<int>")
  case True
  then obtain n where "q = of_int n"
    by (auto elim: Ints_cases)
  then show ?thesis
    using round_half_even_of_int [of "- n"] round_half_even_of_int [of n] by simp
next
  case False
  then have "q \<noteq> of_int \<lfloor>q\<rfloor>"
    by (metis Ints_of_int)
  then have fl: "\<lfloor>- q\<rfloor> = - \<lfloor>q\<rfloor> - 1"
    by (simp add: floor_minus ceiling_altdef)
  show ?thesis
    unfolding round_half_even_def Let_def fl
    by (auto simp: algebra_simps)
qed

lemma floor_log2_bounds:
  assumes "0 < x"
  shows "2 powi floor_log2 x \<le> x \<and> x < 2 powi (floor_log2 x + 1)"
proof (cases "1 \<le> x")
  case True
  define n where "n = \<lfloor>x\<rfloor>"
  have n: "1 \<le> n" "of_int n \<le> x" "x < of_int n + 1"
    using True floor_correct [of x] by (simp_all add: n_def le_floor_iff)
  have B: "1 \<le> bitlen n"
    using n(1) bitlen_eq_zero_iff [of n] bitlen_nonneg [of n] by linarith
  have bb: "2 ^ nat (bitlen n - 1) \<le> n" "n < 2 ^ nat (bitlen n)"
    using bitlen_bounds [of n] n(1) by auto
  have L: "floor_log2 x = bitlen n - 1"
    using True by (simp add: floor_log2_def n_def)
  have "(2::real) powi (bitlen n - 1) = of_int (2 ^ nat (bitlen n - 1))"
    using B by (simp add: power_int_def)
  also have "\<dots> \<le> of_int n"
    using bb(1) by (simp only: of_int_le_iff)
  finally have lo: "2 powi (bitlen n - 1) \<le> x"
    using n(2) by linarith
  have "n + 1 \<le> 2 ^ nat (bitlen n)"
    using bb(2) by linarith
  then have "(of_int (n + 1) :: real) \<le> of_int (2 ^ nat (bitlen n))"
    by (simp only: of_int_le_iff)
  also have "\<dots> = 2 powi bitlen n"
    using B by (simp add: power_int_def)
  finally have hi: "x < 2 powi bitlen n"
    using n(3) by simp
  show ?thesis
    using lo hi by (simp add: L)
next
  case False
  define y where "y = 1 / x"
  define m where "m = \<lceil>y\<rceil> - 1"
  have y: "1 < y" "x = 1 / y" "0 < y"
    using False assms by (auto simp: y_def field_simps)
  have "1 < \<lceil>y\<rceil>"
    using y(1) by (simp add: less_ceiling_iff)
  then have m: "1 \<le> m" "of_int m < y" "y \<le> of_int m + 1"
    using ceiling_correct [of y] by (simp_all add: m_def)
  have B: "1 \<le> bitlen m"
    using m(1) bitlen_eq_zero_iff [of m] bitlen_nonneg [of m] by linarith
  have bb: "2 ^ nat (bitlen m - 1) \<le> m" "m < 2 ^ nat (bitlen m)"
    using bitlen_bounds [of m] m(1) by auto
  have L: "floor_log2 x = - bitlen m"
    using False by (simp add: floor_log2_def m_def y_def)
  have "(of_int (m + 1) :: real) \<le> of_int (2 ^ nat (bitlen m))"
    using bb(2) by (simp only: of_int_le_iff)
  then have "y \<le> 2 ^ nat (bitlen m)"
    using m(3) by simp
  then have lo: "2 powi (- bitlen m) \<le> x"
    using B y(3) by (simp add: power_int_def y(2) field_simps)
  have "(2::real) ^ nat (bitlen m - 1) = of_int (2 ^ nat (bitlen m - 1))"
    by simp
  also have "\<dots> \<le> of_int m"
    using bb(1) by (simp only: of_int_le_iff)
  finally have "2 ^ nat (bitlen m - 1) < y"
    using m(2) by linarith
  then have "1 / y < 1 / 2 ^ nat (bitlen m - 1)"
    using y(3) by (simp add: field_simps)
  moreover have "(2::real) powi (- bitlen m + 1) = 1 / 2 ^ nat (bitlen m - 1)"
    using B by (simp add: power_int_def field_simps nat_diff_distrib) 
  ultimately have hi: "x < 2 powi (- bitlen m + 1)"
    by (simp only: y(2))
  show ?thesis
    using lo hi by (simp add: L)
qed


lemma floor_log2_mono:
  assumes "0 < x" "x \<le> y"
  shows "floor_log2 x \<le> floor_log2 y"
proof -
  have "2 powi floor_log2 x \<le> x"
    using floor_log2_bounds [OF assms(1)] by simp
  also have "x \<le> y" by fact
  also have "y < 2 powi (floor_log2 y + 1)"
    using floor_log2_bounds [of y] assms by simp
  finally have "floor_log2 x < floor_log2 y + 1"
    using power_int_increasing [of "floor_log2 y + 1" "floor_log2 x" "2::real"]
    by (cases "floor_log2 x < floor_log2 y + 1") auto
  then show ?thesis by simp
qed

lemma f32_ulp_exp_mono: "0 < x \<Longrightarrow> x \<le> y \<Longrightarrow> f32_ulp_exp x \<le> f32_ulp_exp y"
  using floor_log2_mono [of x y] by (simp add: f32_ulp_exp_def)

lemma f32_round_0: "f32_round 0 = 0"
  by (simp add: f32_round_def)

lemma f32_round_minus: "f32_round (- x) = - f32_round x"
  by (simp add: f32_round_def f32_ulp_exp_def Let_def round_half_even_minus)

lemma f32_round_pos:
  assumes "0 < x"
  shows "f32_round x = of_int (round_half_even (x / 2 powi f32_ulp_exp x)) * 2 powi f32_ulp_exp x"
  using assms by (simp add: f32_round_def Let_def)

lemma f32_round_nonneg:
  assumes "0 \<le> x"
  shows "0 \<le> f32_round x"
proof (cases "x = 0")
  case True
  then show ?thesis by (simp add: f32_round_0)
next
  case False
  then have "0 < x" using assms by simp
  then have "0 \<le> x / 2 powi f32_ulp_exp x"
    by simp
  then have "round_half_even 0 \<le> round_half_even (x / 2 powi f32_ulp_exp x)"
    by (rule round_half_even_mono)
  then have "0 \<le> round_half_even (x / 2 powi f32_ulp_exp x)"
    using round_half_even_of_int [of 0] by simp
  then show ?thesis
    using \<open>0 < x\<close> by (simp add: f32_round_pos)
qed

lemma f32_round_mono_pos:
  assumes "0 < x" "x \<le> y"
  shows "f32_round x \<le> f32_round y"
proof -
  define ex where "ex = f32_ulp_exp x"
  define ey where "ey = f32_ulp_exp y"
  have y: "0 < y" using assms by simp
  have rx: "f32_round x = of_int (round_half_even (x / 2 powi ex)) * 2 powi ex"
    using assms(1) by (simp add: f32_round_pos ex_def)
  have ry: "f32_round y = of_int (round_half_even (y / 2 powi ey)) * 2 powi ey"
    using y by (simp add: f32_round_pos ey_def)
  have le: "ex \<le> ey"
    using f32_ulp_exp_mono [OF assms] by (simp add: ex_def ey_def)
  show ?thesis
  proof (cases "ex = ey")
    case True
    have "x / 2 powi ey \<le> y / 2 powi ey"
      using assms(2) by (simp add: divide_right_mono)
    then have "round_half_even (x / 2 powi ey) \<le> round_half_even (y / 2 powi ey)"
      by (rule round_half_even_mono)
    then have "(of_int (round_half_even (x / 2 powi ey)) :: real) \<le> of_int (round_half_even (y / 2 powi ey))"
      by (simp only: of_int_le_iff)
    then show ?thesis
      unfolding rx ry True by (simp add: mult_right_mono)
  next
    case False
    then have lt: "ex + 1 \<le> ey" using le by simp
    have "- 149 \<le> ex"
      by (simp add: ex_def f32_ulp_exp_def)
    then have ey: "ey = floor_log2 y - 23"
      using lt y by (simp add: ey_def f32_ulp_exp_def max_def split: if_splits)
    have "floor_log2 x - 23 \<le> ex"
      using assms(1) by (simp add: ex_def f32_ulp_exp_def)
    then have "floor_log2 x + 1 \<le> ex + 24" by simp
    then have "(2::real) powi (floor_log2 x + 1) \<le> 2 powi (ex + 24)"
      by (intro power_int_increasing) auto
    then have "x \<le> 2 powi (ex + 24)"
      using floor_log2_bounds [OF assms(1)] by linarith
    also have "(2::real) powi (ex + 24) = 2 ^ 24 * 2 powi ex"
      by (simp add: power_int_add)
    finally have "x / 2 powi ex \<le> of_int (2 ^ 24)"
      by (simp add: field_simps)
    then have "round_half_even (x / 2 powi ex) \<le> 2 ^ 24"
      using round_half_even_mono [of "x / 2 powi ex" "of_int (2 ^ 24)"]
        round_half_even_of_int [of "2 ^ 24"] by simp
    then have "(of_int (round_half_even (x / 2 powi ex)) :: real) \<le> of_int (2 ^ 24)"
      by (simp only: of_int_le_iff)
    then have "f32_round x \<le> 2 ^ 24 * 2 powi ex"
      unfolding rx by (simp add: mult_right_mono)
    also have "\<dots> = 2 powi (ex + 24)"
      by (simp add: power_int_add)
    also have "\<dots> \<le> 2 powi (ey + 23)"
      using lt by (intro power_int_increasing) auto
    finally have up: "f32_round x \<le> 2 powi (ey + 23)" .
    have "(2::real) powi (ey + 23) \<le> y"
      using floor_log2_bounds [OF y] by (simp add: ey)
    moreover have "(2::real) powi (ey + 23) = 2 ^ 23 * 2 powi ey"
      by (simp add: power_int_add)
    ultimately have "of_int (2 ^ 23) \<le> y / 2 powi ey"
      by (simp add: field_simps)
    then have "2 ^ 23 \<le> round_half_even (y / 2 powi ey)"
      using round_half_even_mono [of "of_int (2 ^ 23)" "y / 2 powi ey"]
        round_half_even_of_int [of "2 ^ 23"] by simp
    then have "(of_int (2 ^ 23) :: real) \<le> of_int (round_half_even (y / 2 powi ey))"
      by (simp only: of_int_le_iff)
    then have "2 ^ 23 * 2 powi ey \<le> f32_round y"
      unfolding ry by (simp add: mult_right_mono)
    then have "2 powi (ey + 23) \<le> f32_round y"
      by (simp add: power_int_add)
    then show ?thesis
      using up by linarith
  qed
qed

lemma f32_round_mono:
  assumes "x \<le> y"
  shows "f32_round x \<le> f32_round y"
proof -
  consider "0 < x" | "x \<le> 0" "0 \<le> y" | "y < 0"
    using assms by linarith
  then show ?thesis
  proof cases
    case 1
    then show ?thesis using assms by (rule f32_round_mono_pos)
  next
    case 2
    have "f32_round x = - f32_round (- x)"
      by (simp add: f32_round_minus)
    moreover have "0 \<le> f32_round (- x)"
      using 2(1) by (intro f32_round_nonneg) simp
    moreover have "0 \<le> f32_round y"
      using 2(2) by (rule f32_round_nonneg)
    ultimately show ?thesis by linarith
  next
    case 3
    then have "f32_round (- y) \<le> f32_round (- x)"
      using assms by (intro f32_round_mono_pos) auto
    then show ?thesis
      by (simp add: f32_round_minus)
  qed
qed


text \<open>Evaluating the float operations on numerals.\<close>

lemmas f32_eval = f32_round_def f32_ulp_exp_def floor_log2_def round_half_even_def Let_def
  compute_bitlen fadd_def fsub_def fmul_def fdiv_def float_of_int_def float_of_u32_def

section \<open>The generator\<close>

lemma SFC32_next_state: "snd (SFC32_next rng) = snd (SFC32_draw rng)"
  by (simp add: SFC32_next_def split_def Let_def)

lemma SFC32_randomInt_state: "snd (SFC32_randomInt lo hi rng) = snd (SFC32_draw rng)"
  by (simp add: SFC32_randomInt_def SFC32_next_def split_def Let_def)

lemma scaleWeight_state: "snd (scaleWeight i rng) = snd (SFC32_draw rng)"
  by (simp add: scaleWeight_def SFC32_next_def split_def Let_def)

lemma barWeight_state: "snd (barWeight i rng) = snd (SFC32_draw rng)"
  by (simp add: barWeight_def SFC32_next_def split_def Let_def)

lemma draws_add: "draws (m + n) rng = draws n (draws m rng)"
  by (induction m arbitrary: rng) simp_all

lemma fill_loop_state:
  assumes "\<And>i r. snd (f i r) = snd (SFC32_draw r)"
  shows "snd (fill_loop f js rng) = draws (length js) rng"
  by (induction js arbitrary: rng) (simp_all add: split_def Let_def assms)

lemma generateMaster_steps:
  "steps (generateMaster seed out) =
     fst (fill_loop stepContent [0..<MAX_STEPS] (draws 23 (SFC32_seed seed)))"
proof -
  have 1: "snd (fill_loop scaleWeight [0..<SCALE_SIZE] rng) = draws 7 rng" for rng
    using fill_loop_state [of scaleWeight "[0..<SCALE_SIZE]" rng]
    by (simp add: scaleWeight_state SCALE_SIZE_def)
  have 2: "snd (fill_loop barWeight [0..<BAR_LEN] rng) = draws 16 rng" for rng
    using fill_loop_state [of barWeight "[0..<BAR_LEN]" rng]
    by (simp add: barWeight_state BAR_LEN_def)
  have "draws 16 (draws 7 rng) = draws 23 rng" for rng
    using draws_add [of 7 16 rng] by simp
  then show ?thesis
    by (simp add: generateMaster_def split_def Let_def 1 2)
qed

lemma fill_loop_first: "fst (fill_loop f (i # js) rng) ! 0 = fst (f i rng)"
  by (simp add: split_def Let_def)

lemma generateMaster_step0:
  "steps (generateMaster seed out) ! 0 = fst (stepContent 0 (draws 23 (SFC32_seed seed)))"
proof -
  have "[0..<MAX_STEPS] = 0 # [1..<MAX_STEPS]"
    by (simp add: MAX_STEPS_def upt_conv_Cons)
  then show ?thesis
    by (simp only: generateMaster_steps fill_loop_first)
qed

lemma draws_36208852:
  "draws 23 (SFC32_seed 36208852) =
     \<lparr>sfc_a = 1409524322, sfc_b = 1547122555, sfc_c = 778730216, sfc_d = 36208875\<rparr>"
  by code_simp

lemma draws_359083:
  "draws 23 (SFC32_seed 359083) =
     \<lparr>sfc_a = 1261454209, sfc_b = 1827237266, sfc_c = 2822051088, sfc_d = 359106\<rparr>"
  by code_simp

text \<open>
  C1: \<^verbatim>\<open>next()\<close> returns a float in \<open>[0, 1)\<close> and \<^verbatim>\<open>randomInt(min, max)\<close> an integer in
  \<open>[min, max]\<close>. The code breaks both at the seed \<open>0xAAAAAAAA\<close>: the first word drawn is
  \<open>0xFFFFFFFF\<close>, its conversion to \<^verbatim>\<open>float\<close> rounds up to \<open>2 ^ 32\<close>, so \<^verbatim>\<open>next()\<close> returns
  \<open>1\<close> and \<^verbatim>\<open>randomInt(0, 6)\<close> returns \<open>7\<close>.
\<close>

theorem C1_next_reaches_one:
  "fst (SFC32_next (SFC32_seed 2863311530)) = 1
   \<and> fst (SFC32_randomInt 0 6 (SFC32_seed 2863311530)) = 7"
proof -
  have d: "SFC32_draw (SFC32_seed 2863311530) =
      (4294967295, \<lparr>sfc_a = 2868903935, sfc_b = 4294967290, sfc_c = 1431655764, sfc_d = 2863311531\<rparr>)"
    by (simp add: SFC32_draw_def SFC32_seed_def)
  have f: "fdiv (float_of_u32 4294967295) 4294967296 = 1"
    by (simp add: f32_eval)
  have n: "fst (SFC32_next (SFC32_seed 2863311530)) = 1"
    by (simp add: SFC32_next_def d f)
  have m: "\<lfloor>fmul 1 (float_of_int (6 - 0 + 1))\<rfloor> = 7"
    by (simp add: f32_eval)
  have "fst (SFC32_randomInt 0 6 (SFC32_seed 2863311530)) = 7"
    using m by (simp add: SFC32_randomInt_def SFC32_next_def d f)
  with n show ?thesis by simp
qed

lemma generateMaster_octave_2_slide_1:
  "octave (steps (generateMaster 36208852 out) ! 0) = 2
   \<and> slideProb (steps (generateMaster 359083 out') ! 0) = 1"
proof -
  define A0 where "A0 = \<lparr>sfc_a = 1409524322, sfc_b = 1547122555, sfc_c = 778730216, sfc_d = 36208875\<rparr>"
  define A1 where "A1 = \<lparr>sfc_a = 1545153760, sfc_b = 2713604648, sfc_c = 258549784, sfc_d = 36208876\<rparr>"
  define A2 where "A2 = \<lparr>sfc_a = 2716765441, sfc_b = 2326948056, sfc_c = 50457882, sfc_d = 36208877\<rparr>"
  have a1: "SFC32_draw A0 = (2992855753, A1)"
    by (simp add: SFC32_draw_def A0_def A1_def)
  have a2: "SFC32_draw A1 = (4294967285, A2)"
    by (simp add: SFC32_draw_def A1_def A2_def)
  have v1: "f32_round (3 / 10) < fdiv (float_of_u32 2992855753) 4294967296"
    by (simp add: f32_eval)
  have v2: "\<lfloor>fmul (fdiv (float_of_u32 4294967285) 4294967296) (float_of_int (1 - (- 1) + 1))\<rfloor> = 3"
    by (simp add: f32_eval)
  have "octave (fst (stepContent 0 A0)) = 2"
    using v1 v2 by (simp add: stepContent_def SFC32_randomInt_def SFC32_next_def a1 a2 split_def Let_def)
  then have oct: "octave (steps (generateMaster 36208852 out) ! 0) = 2"
    by (simp add: generateMaster_step0 draws_36208852 A0_def)
  define B0 where "B0 = \<lparr>sfc_a = 1261454209, sfc_b = 1827237266, sfc_c = 2822051088, sfc_d = 359106\<rparr>"
  define B1 where "B1 = \<lparr>sfc_a = 1826560292, sfc_b = 3923623312, sfc_c = 1513370232, sfc_d = 359107\<rparr>"
  define B2 where "B2 = \<lparr>sfc_a = 3920188238, sfc_b = 735430200, sfc_c = 2781714430, sfc_d = 359108\<rparr>"
  define B3 where "B3 = \<lparr>sfc_a = 734014683, sfc_b = 3560593390, sfc_c = 358174205, sfc_d = 359109\<rparr>"
  define B4 where "B4 = \<lparr>sfc_a = 3562031813, sfc_b = 3223567845, sfc_c = 3215108792, sfc_d = 359110\<rparr>"
  have b1: "SFC32_draw B0 = (3089050582, B1)"
    by (simp add: SFC32_draw_def B0_def B1_def)
  have b2: "SFC32_draw B1 = (1455575416, B2)"
    by (simp add: SFC32_draw_def B1_def B2_def)
  have b3: "SFC32_draw B2 = (361010251, B3)"
    by (simp add: SFC32_draw_def B2_def B3_def)
  have b4: "SFC32_draw B3 = (4294967183, B4)"
    by (simp add: SFC32_draw_def B3_def B4_def)
  have w1: "f32_round (3 / 10) < fdiv (float_of_u32 3089050582) 4294967296"
    by (simp add: f32_eval)
  have w4: "fdiv (float_of_u32 4294967183) 4294967296 = 1"
    by (simp add: f32_eval)
  have "slideProb (fst (stepContent 0 B0)) = 1"
    using w1 w4 by (simp add: stepContent_def SFC32_randomInt_def SFC32_next_def b1 b2 b3 b4 split_def Let_def)
  then have "slideProb (steps (generateMaster 359083 out') ! 0) = 1"
    by (simp add: generateMaster_step0 draws_359083 B0_def)
  with oct show ?thesis by simp
qed


lemma fill_loop_second: "fst (fill_loop f (i # j # js) rng) ! 1 = fst (f j (snd (f i rng)))"
  by (simp add: split_def Let_def)

lemma generateMaster_step1:
  "steps (generateMaster seed out) ! 1 =
     fst (stepContent 1 (snd (stepContent 0 (draws 23 (SFC32_seed seed)))))"
proof -
  have "[0..<MAX_STEPS] = 0 # 1 # [2..<MAX_STEPS]"
    by (simp add: MAX_STEPS_def upt_conv_Cons)
  then show ?thesis
    by (simp only: generateMaster_steps fill_loop_second)
qed

lemma draws_19280379:
  "draws 23 (SFC32_seed 19280379) =
     \<lparr>sfc_a = 2784818855, sfc_b = 3905120756, sfc_c = 3042148187, sfc_d = 19280402\<rparr>"
  by code_simp

lemma generateMaster_pool_index_7:
  "notePoolIndex (steps (generateMaster 19280379 out) ! 1) = 7"
proof -
  define C0 where "C0 = \<lparr>sfc_a = 2784818855, sfc_b = 3905120756, sfc_c = 3042148187, sfc_d = 19280402\<rparr>"
  define C1 where "C1 = \<lparr>sfc_a = 3904309312, sfc_b = 1609529907, sfc_c = 2069708061, sfc_d = 19280403\<rparr>"
  define C2 where "C2 = \<lparr>sfc_a = 1606454670, sfc_b = 1447503365, sfc_c = 3984334894, sfc_d = 19280404\<rparr>"
  define C3 where "C3 = \<lparr>sfc_a = 1449919894, sfc_b = 1499275678, sfc_c = 3171652908, sfc_d = 19280405\<rparr>"
  define C4 where "C4 = \<lparr>sfc_a = 1500614414, sfc_b = 2775072396, sfc_c = 1451686588, sfc_d = 19280406\<rparr>"
  define C5 where "C5 = \<lparr>sfc_a = 2772077203, sfc_b = 180277404, sfc_c = 1468715152, sfc_d = 19280407\<rparr>"
  have c1: "SFC32_draw C0 = (2414252718, C1)"
    by (simp add: SFC32_draw_def C0_def C1_def)
  have c2: "SFC32_draw C1 = (1238152327, C2)"
    by (simp add: SFC32_draw_def C1_def C2_def)
  have c3: "SFC32_draw C2 = (3073238440, C3)"
    by (simp add: SFC32_draw_def C2_def C3_def)
  have c4: "SFC32_draw C3 = (2968475978, C4)"
    by (simp add: SFC32_draw_def C3_def C4_def)
  have c5: "SFC32_draw C4 = (4294967217, C5)"
    by (simp add: SFC32_draw_def C4_def C5_def)
  have v1: "f32_round (3 / 10) < fdiv (float_of_u32 2414252718) 4294967296"
    by (simp add: f32_eval)
  have v5: "\<lfloor>fmul (fdiv (float_of_u32 4294967217) 4294967296) (float_of_int (int SCALE_SIZE - 1 - 0 + 1))\<rfloor> = 7"
    by (simp add: f32_eval SCALE_SIZE_def)
  have s0: "snd (stepContent 0 C0) = C4"
    using v1 by (simp add: stepContent_def SFC32_randomInt_def SFC32_next_def c1 c2 c3 c4 split_def Let_def)
  have s1: "notePoolIndex (fst (stepContent 1 C4)) = 7"
    using v5 by (simp add: stepContent_def SFC32_randomInt_def SFC32_next_def c5 split_def Let_def)
  have "steps (generateMaster 19280379 out) ! 1 = fst (stepContent 1 C4)"
    by (simp only: generateMaster_step1 draws_19280379 C0_def [symmetric] s0)
  then show ?thesis
    by (simp only: s1)
qed

text \<open>
  C2: every step that \<^verbatim>\<open>generateMaster\<close> produces has its pool index in \<open>[0, 6]\<close>, its
  octave in \<open>{-1, 0, 1}\<close> and its accent and slide thresholds in \<open>[0, 1)\<close>. The code breaks
  each part: the seed \<open>19280379\<close> gives step 1 the pool index \<open>7\<close>, the seed \<open>36208852\<close>
  gives step 0 the octave \<open>2\<close>, and the seed \<open>359083\<close> gives step 0 the slide threshold \<open>1\<close>.
\<close>

theorem C2_generateMaster_out_of_range:
  "notePoolIndex (steps (generateMaster 19280379 out) ! 1) = 7
   \<and> octave (steps (generateMaster 36208852 out) ! 0) = 2
   \<and> slideProb (steps (generateMaster 359083 out) ! 0) = 1"
  using generateMaster_pool_index_7 [of out] generateMaster_octave_2_slide_1 [of out out]
  by simp

section \<open>Master pattern queries\<close>

lemma std_round_mono:
  assumes "x \<le> y"
  shows "std_round x \<le> std_round y"
proof -
  consider "0 \<le> x" | "x < 0" "0 \<le> y" | "y < 0"
    using assms by linarith
  then show ?thesis
  proof cases
    case 1
    then show ?thesis
      using assms by (simp add: std_round_def floor_mono)
  next
    case 2
    have "\<lceil>x - 1 / 2\<rceil> \<le> 0"
      using 2(1) by (simp add: ceiling_le_iff)
    moreover have "0 \<le> \<lfloor>y + 1 / 2\<rfloor>"
      using 2(2) by (simp add: le_floor_iff)
    moreover have "std_round x = \<lceil>x - 1 / 2\<rceil>" "std_round y = \<lfloor>y + 1 / 2\<rfloor>"
      using 2 by (simp_all add: std_round_def)
    ultimately show ?thesis
      by linarith
  next
    case 3
    then show ?thesis
      using assms by (simp add: std_round_def ceiling_mono)
  qed
qed

lemma activeCount_of_mono:
  assumes "d1 \<le> d2"
  shows "activeCount_of d1 \<le> activeCount_of d2"
proof -
  have c: "0 \<le> float_of_int (int BAR_LEN)"
    unfolding float_of_int_def by (rule f32_round_nonneg) simp
  have "float_of_int (int BAR_LEN) * d1 \<le> float_of_int (int BAR_LEN) * d2"
    using assms c by (rule mult_left_mono)
  then have "fmul (float_of_int (int BAR_LEN)) d1 \<le> fmul (float_of_int (int BAR_LEN)) d2"
    unfolding fmul_def by (rule f32_round_mono)
  then have "fmul (float_of_int (int BAR_LEN)) d1 / 100 \<le> fmul (float_of_int (int BAR_LEN)) d2 / 100"
    by (simp add: divide_right_mono)
  then have "fdiv (fmul (float_of_int (int BAR_LEN)) d1) 100
      \<le> fdiv (fmul (float_of_int (int BAR_LEN)) d2) 100"
    unfolding fdiv_def by (rule f32_round_mono)
  then show ?thesis
    unfolding activeCount_of_def using std_round_mono by fastforce
qed

lemma isStepActive_loop_mono:
  assumes "isStepActive_loop order barPos c1 i" "c1 \<le> c2"
  shows "isStepActive_loop order barPos c2 i"
  using assms
proof (induction order barPos c1 i rule: isStepActive_loop.induct)
  case (1 order barPos activeCount i)
  from "1.prems"(1) have in_range: "i < activeCount \<and> i < int BAR_LEN"
    by (subst (asm) isStepActive_loop.simps) (simp split: if_splits)
  show ?case
  proof (cases "order ! nat i = barPos")
    case True
    then show ?thesis
      using in_range "1.prems"(2) by (subst isStepActive_loop.simps) simp
  next
    case False
    then have "isStepActive_loop order barPos activeCount (i + 1)"
      using "1.prems"(1) in_range by (subst (asm) isStepActive_loop.simps) simp
    then have "isStepActive_loop order barPos c2 (i + 1)"
      using "1.IH" in_range False "1.prems"(2) by simp
    then show ?thesis
      using in_range False "1.prems"(2) by (subst isStepActive_loop.simps) simp
  qed
qed

text \<open>
  C3: whenever \<open>muted[step]\<close> is set, for a step index in \<open>[0, 64)\<close>, \<^verbatim>\<open>getStep\<close> returns a
  rest (note \<open>-1\<close>, octave \<open>0\<close>, no accent, no slide), whatever the four parameters are.
\<close>

theorem C3_mute_precedence:
  assumes "0 \<le> step" "step < int MAX_STEPS" "length (muted mp) = MAX_STEPS"
    and "muted mp ! nat step"
  shows "getStep mp step density spread accentsDensity slidesDensity quantizeToPool =
    Inr \<lparr>step_note = - 1, step_octave = 0, step_accent = False, step_slide = False\<rparr>"
  using assms by (simp add: getStep_def array_at_def rest_def)

theorem C3_mute_precedence_witness:
  "(0::int) \<le> 3 \<and> 3 < int MAX_STEPS
   \<and> length (muted (MasterPattern_init\<lparr>muted := (replicate MAX_STEPS False)[3 := True]\<rparr>)) = MAX_STEPS
   \<and> muted (MasterPattern_init\<lparr>muted := (replicate MAX_STEPS False)[3 := True]\<rparr>) ! nat 3
   \<and> getStep (MasterPattern_init\<lparr>muted := (replicate MAX_STEPS False)[3 := True]\<rparr>) 3 100 100 100 100 True =
       Inr \<lparr>step_note = - 1, step_octave = 0, step_accent = False, step_slide = False\<rparr>"
  using C3_mute_precedence [of 3 "MasterPattern_init\<lparr>muted := (replicate MAX_STEPS False)[3 := True]\<rparr>"
      100 100 100 100 True]
  by (simp add: MAX_STEPS_def)

text \<open>
  C4: a step that is active at density \<open>d1\<close> is active at every density \<open>d2\<close> with
  \<open>d1 \<le> d2 \<le> 100\<close>: raising the density never deactivates a step.
\<close>

theorem C4_density_monotone:
  assumes "isStepActive mp step d1" "d1 \<le> d2" "d2 \<le> 100"
  shows "isStepActive mp step d2"
  using assms(1) activeCount_of_mono [OF assms(2)]
  unfolding isStepActive_def Let_def by (rule isStepActive_loop_mono)

lemma activeCount_of_50: "activeCount_of 50 = 8"
  by (simp add: activeCount_of_def std_round_def BAR_LEN_def f32_eval)

lemma activeCount_of_75: "activeCount_of 75 = 12"
  by (simp add: activeCount_of_def std_round_def BAR_LEN_def f32_eval)

theorem C4_density_monotone_witness:
  "isStepActive MasterPattern_init 5 50 \<and> (50::real) \<le> 75 \<and> (75::real) \<le> 100
   \<and> isStepActive MasterPattern_init 5 75"
proof -
  have a: "isStepActive MasterPattern_init 5 50"
    by (simp add: isStepActive_def activeCount_of_50 MasterPattern_init_def BAR_LEN_def
        tmod_def tdiv_def isStepActive_loop.simps upt_conv_Cons)
  from C4_density_monotone [OF a, of 75] a show ?thesis by simp
qed


section \<open>Root priority\<close>

lemma float_of_u32_range: "0 \<le> float_of_u32 t \<and> float_of_u32 t \<le> 4294967296"
proof -
  have "uint t \<le> 4294967296"
    using uint_bounded [of t] by simp
  then have "(of_int (uint t) :: real) \<le> of_int 4294967296"
    by (simp only: of_int_le_iff)
  then have "(of_int (uint t) :: real) \<le> 4294967296"
    by (simp only: of_int_numeral)
  then have "f32_round (of_int (uint t)) \<le> f32_round 4294967296"
    by (rule f32_round_mono)
  moreover have "f32_round 4294967296 = 4294967296"
    by (simp add: f32_eval)
  moreover have "(0::real) \<le> of_int (uint t)"
    by (simp only: of_int_0_le_iff uint_ge_0)
  then have "0 \<le> f32_round (of_int (uint t))"
    by (rule f32_round_nonneg)
  ultimately show ?thesis
    unfolding float_of_u32_def by linarith
qed

lemma SFC32_next_range: "0 \<le> fst (SFC32_next rng) \<and> fst (SFC32_next rng) \<le> 1"
proof -
  define x where "x = float_of_u32 (fst (SFC32_draw rng))"
  have x: "0 \<le> x" "x \<le> 4294967296"
    using float_of_u32_range [of "fst (SFC32_draw rng)"] by (simp_all add: x_def)
  have "x / 4294967296 \<le> 1"
    using x by simp
  then have "f32_round (x / 4294967296) \<le> f32_round 1"
    by (rule f32_round_mono)
  moreover have "f32_round 1 = 1"
    by (simp add: f32_eval)
  moreover have "0 \<le> f32_round (x / 4294967296)"
    using x by (intro f32_round_nonneg) simp
  ultimately show ?thesis
    by (simp add: SFC32_next_def split_def Let_def fdiv_def x_def)
qed

lemma scaleWeight_root: "fst (fst (scaleWeight 0 rng)) = 0 \<and> 999 \<le> snd (fst (scaleWeight 0 rng))"
proof -
  have "999 \<le> fst (SFC32_next rng) + 999"
    using SFC32_next_range [of rng] by simp
  then have "f32_round 999 \<le> f32_round (fst (SFC32_next rng) + 999)"
    by (rule f32_round_mono)
  moreover have "f32_round 999 = 999"
    by (simp add: f32_eval)
  ultimately show ?thesis
    by (simp add: scaleWeight_def split_def Let_def fadd_def)
qed

lemma scaleWeight_other:
  assumes "i \<noteq> 0"
  shows "snd (fst (scaleWeight i rng)) \<le> 3 / 2"
proof -
  have r: "fst (SFC32_next rng) \<le> 1"
    using SFC32_next_range [of rng] by simp
  then have "fst (SFC32_next rng) + 1 / 2 \<le> 3 / 2"
    by simp
  then have "f32_round (fst (SFC32_next rng) + 1 / 2) \<le> f32_round (3 / 2)"
    by (rule f32_round_mono)
  moreover have "f32_round (3 / 2) = 3 / 2"
    by (simp add: f32_eval)
  ultimately show ?thesis
    using assms r by (simp add: scaleWeight_def split_def Let_def fadd_def)
qed

lemma fill_loop_length: "length (fst (fill_loop f js rng)) = length js"
  by (induction js arbitrary: rng) (simp_all add: split_def Let_def)

lemma fill_loop_elements:
  assumes "x \<in> set (fst (fill_loop f js rng))"
  shows "\<exists>j\<in>set js. \<exists>r. x = fst (f j r)"
  using assms
  by (induction js arbitrary: rng) (auto simp: split_def Let_def)

lemma swap_head_max:
  assumes "head_max ws" "0 < j" "j + 1 < length ws"
  shows "head_max (ws[j := ws ! (j + 1), j + 1 := ws ! j])"
    and "ws[j := ws ! (j + 1), j + 1 := ws ! j] ! 0 = ws ! 0"
proof -
  show hd: "ws[j := ws ! (j + 1), j + 1 := ws ! j] ! 0 = ws ! 0"
    using assms by simp
  show "head_max (ws[j := ws ! (j + 1), j + 1 := ws ! j])"
    unfolding head_max_def
  proof (intro allI impI)
    fix k
    assume "k < length (ws[j := ws ! (j + 1), j + 1 := ws ! j])"
    then have k: "k < length ws" by simp
    have "snd (ws[j := ws ! (j + 1), j + 1 := ws ! j] ! k) \<le> snd (ws ! 0)"
      using assms k unfolding head_max_def
      by (cases "k = j + 1"; cases "k = j") (simp_all add: nth_list_update)
    then show "snd (ws[j := ws ! (j + 1), j + 1 := ws ! j] ! k)
        \<le> snd (ws[j := ws ! (j + 1), j + 1 := ws ! j] ! 0)"
      by (simp only: hd)
  qed
qed

lemma bubble_inner_head:
  assumes "head_max ws" "bound < length ws"
  shows "head_max (bubble_inner j bound ws) \<and> bubble_inner j bound ws ! 0 = ws ! 0
    \<and> length (bubble_inner j bound ws) = length ws"
  using assms
proof (induction j bound ws rule: bubble_inner.induct)
  case (1 j bound ws)
  show ?case
  proof (cases "j < bound")
    case False
    then show ?thesis
      using "1.prems" by (subst (1 2 3) bubble_inner.simps) simp
  next
    case True
    define ws' where "ws' = (if snd (ws ! j) < snd (ws ! (j + 1))
      then ws[j := ws ! (j + 1), j + 1 := ws ! j] else ws)"
    have step: "bubble_inner j bound ws = bubble_inner (j + 1) bound ws'"
      using True by (subst bubble_inner.simps) (simp add: ws'_def)
    have j1: "j + 1 < length ws"
      using True "1.prems"(2) by simp
    have keep: "head_max ws' \<and> ws' ! 0 = ws ! 0 \<and> length ws' = length ws"
    proof (cases "snd (ws ! j) < snd (ws ! (j + 1))")
      case False
      then show ?thesis
        using "1.prems"(1) by (simp add: ws'_def)
    next
      case swap: True
      have "j \<noteq> 0"
      proof
        assume "j = 0"
        then have "snd (ws ! 0) < snd (ws ! 1)"
          using swap by simp
        moreover have "snd (ws ! 1) \<le> snd (ws ! 0)"
          using "1.prems"(1) j1 unfolding head_max_def by simp
        ultimately show False by simp
      qed
      then have "0 < j" by simp
      then show ?thesis
        using swap swap_head_max [OF "1.prems"(1) _ j1] by (simp add: ws'_def)
    qed
    have "head_max (bubble_inner (j + 1) bound ws')
        \<and> bubble_inner (j + 1) bound ws' ! 0 = ws' ! 0
        \<and> length (bubble_inner (j + 1) bound ws') = length ws'"
      using "1.IH" [OF True] keep "1.prems"(2) unfolding ws'_def by simp
    then show ?thesis
      using keep by (simp add: step)
  qed
qed

lemma bubble_outer_head:
  assumes "head_max ws" "length ws = n"
  shows "bubble_outer i n ws ! 0 = ws ! 0 \<and> length (bubble_outer i n ws) = n"
  using assms
proof (induction i n ws rule: bubble_outer.induct)
  case (1 i n ws)
  show ?case
  proof (cases "i < n - 1")
    case False
    then show ?thesis
      using "1.prems" by (subst (1 2) bubble_outer.simps) simp
  next
    case True
    then have b: "n - i - 1 < length ws"
      using "1.prems"(2) by simp
    note inner = bubble_inner_head [OF "1.prems"(1) b, of 0]
    have "bubble_outer (i + 1) n (bubble_inner 0 (n - i - 1) ws) ! 0
          = bubble_inner 0 (n - i - 1) ws ! 0
        \<and> length (bubble_outer (i + 1) n (bubble_inner 0 (n - i - 1) ws)) = n"
      using "1.IH" [OF True] inner "1.prems"(2) by simp
    then show ?thesis
      using True inner by (subst (1 2) bubble_outer.simps) simp
  qed
qed

lemma weightedScale_head_max:
  "head_max (fst (fill_loop scaleWeight [0..<SCALE_SIZE] rng))
   \<and> fst (fst (fill_loop scaleWeight [0..<SCALE_SIZE] rng) ! 0) = 0
   \<and> length (fst (fill_loop scaleWeight [0..<SCALE_SIZE] rng)) = SCALE_SIZE"
proof -
  define rest_ws where
    "rest_ws = fst (fill_loop scaleWeight [1..<SCALE_SIZE] (snd (scaleWeight 0 rng)))"
  have u: "[0..<SCALE_SIZE] = 0 # [1..<SCALE_SIZE]"
    by (simp add: SCALE_SIZE_def upt_conv_Cons)
  have ws: "fst (fill_loop scaleWeight [0..<SCALE_SIZE] rng) = fst (scaleWeight 0 rng) # rest_ws"
    unfolding u by (simp add: split_def Let_def rest_ws_def)
  have small: "snd x \<le> 3 / 2" if "x \<in> set rest_ws" for x
  proof -
    have "x \<in> set (fst (fill_loop scaleWeight [1..<SCALE_SIZE] (snd (scaleWeight 0 rng))))"
      using that by (simp only: rest_ws_def)
    from fill_loop_elements [OF this]
    obtain j r where "j \<in> set [1..<SCALE_SIZE]" "x = fst (scaleWeight j r)"
      by auto
    then show ?thesis
      using scaleWeight_other [of j r] by simp
  qed
  have root: "fst (fst (scaleWeight 0 rng)) = 0" "999 \<le> snd (fst (scaleWeight 0 rng))"
    using scaleWeight_root [of rng] by simp_all
  have "head_max (fst (scaleWeight 0 rng) # rest_ws)"
    unfolding head_max_def
  proof (intro allI impI)
    fix k
    assume k: "k < length (fst (scaleWeight 0 rng) # rest_ws)"
    show "snd ((fst (scaleWeight 0 rng) # rest_ws) ! k) \<le> snd ((fst (scaleWeight 0 rng) # rest_ws) ! 0)"
    proof (cases k)
      case 0
      then show ?thesis by simp
    next
      case (Suc m)
      then have "rest_ws ! m \<in> set rest_ws"
        using k by simp
      then have "snd (rest_ws ! m) \<le> 3 / 2"
        by (rule small)
      then show ?thesis
        using root(2) Suc by simp
    qed
  qed
  moreover have "length (fst (fill_loop scaleWeight [0..<SCALE_SIZE] rng)) = SCALE_SIZE"
    by (simp add: fill_loop_length)
  ultimately show ?thesis
    using root(1) by (simp add: ws)
qed

text \<open>
  C5: for every seed, the priority order that \<^verbatim>\<open>generateMaster\<close> stores starts with the
  root degree: \<open>scalePriorityOrder[0] = 0\<close>.
\<close>

theorem C5_root_first: "scalePriorityOrder (generateMaster seed out) ! 0 = 0"
proof -
  define ws where "ws = fst (fill_loop scaleWeight [0..<SCALE_SIZE] (SFC32_seed seed))"
  have ws: "head_max ws" "fst (ws ! 0) = 0" "length ws = SCALE_SIZE"
    using weightedScale_head_max [of "SFC32_seed seed"] by (simp_all add: ws_def)
  have s: "bubble_outer 0 SCALE_SIZE ws ! 0 = ws ! 0" "length (bubble_outer 0 SCALE_SIZE ws) = SCALE_SIZE"
    using bubble_outer_head [OF ws(1) ws(3), of 0] by simp_all
  have "scalePriorityOrder (generateMaster seed out) = map fst (bubble_outer 0 SCALE_SIZE ws)"
    by (simp add: generateMaster_def split_def Let_def ws_def)
  then show ?thesis
    using s ws(2) by (simp add: SCALE_SIZE_def)
qed


section \<open>Scale lookup\<close>

lemma tdiv_nonneg: "0 \<le> a \<Longrightarrow> 0 < b \<Longrightarrow> tdiv a b = a div b"
  by (cases "a = 0") (simp_all add: tdiv_def)

lemma tmod_nonneg: "0 \<le> a \<Longrightarrow> 0 < b \<Longrightarrow> tmod a b = a mod b"
  by (simp add: tmod_def tdiv_nonneg minus_mult_div_eq_mod)





section \<open>The clock period\<close>

lemmas engine_defs = process_def handleTriggers_def updateDisplayPattern_def handleClock_def playStep_def
  resolve_def advanceStep_def slideInto_def normalAttack_def processSlide_def setOutputs_def
  updateLights_def bindE_def pulse_trigger_def pulse_process_def RETRIGGER_GAP_TIME_def

lemmas pattern_defs = getStep_def getScaleDegree_def isStepActive_def activeCount_of_def
  isStepActive_loop.simps array_at_def rest_def isRest_def tmod_def tdiv_def std_round_def
  MAX_STEPS_def BAR_LEN_def SCALE_SIZE_def getNoteInScale_def SCALES_def

lemmas example_defs = example_input_def example_state_def AcidSeq_default_def
  MasterPattern_init_def

lemma bindE_Inr: "bindE m f = Inr y \<Longrightarrow> \<exists>x. m = Inr x \<and> f x = Inr y"
  by (cases m) (simp_all add: bindE_def)

lemma updateDisplayPattern_keeps:
  assumes "updateDisplayPattern inp s = Inr s'"
  shows "measuredClockPeriod s' = measuredClockPeriod s
    \<and> timeSinceLastClock s' = timeSinceLastClock s
    \<and> currentStep s' = currentStep s \<and> masterPattern s' = masterPattern s
    \<and> currentSeed s' = currentSeed s"
  using assms
  by (auto simp: updateDisplayPattern_def split: if_splits dest!: bindE_Inr)

lemma generateNewPattern_keeps:
  "measuredClockPeriod (generateNewPattern now s) = measuredClockPeriod s
   \<and> timeSinceLastClock (generateNewPattern now s) = timeSinceLastClock s
   \<and> currentStep (generateNewPattern now s) = currentStep s"
  by (simp add: generateNewPattern_def Let_def)

lemma slideInto_keeps:
  "measuredClockPeriod (slideInto inp st v s) = measuredClockPeriod s
   \<and> currentStep (slideInto inp st v s) = currentStep s
   \<and> masterPattern (slideInto inp st v s) = masterPattern s"
  by (simp add: slideInto_def Let_def)

lemma normalAttack_keeps:
  "measuredClockPeriod (normalAttack st v s) = measuredClockPeriod s
   \<and> currentStep (normalAttack st v s) = currentStep s
   \<and> masterPattern (normalAttack st v s) = masterPattern s"
  by (simp add: normalAttack_def Let_def)

lemma playStep_keeps:
  assumes "playStep inp s = Inr s'"
  shows "measuredClockPeriod s' = measuredClockPeriod s \<and> currentStep s' = currentStep s
    \<and> masterPattern s' = masterPattern s"
  using assms
  by (auto simp: playStep_def Let_def slideInto_keeps normalAttack_keeps
      split: if_splits dest!: bindE_Inr)

lemma processSlide_keeps:
  "measuredClockPeriod (processSlide s) = measuredClockPeriod s
   \<and> currentStep (processSlide s) = currentStep s
   \<and> masterPattern (processSlide s) = masterPattern s"
  by (simp add: processSlide_def Let_def)

lemma setOutputs_keeps:
  assumes "setOutputs inp s = Inr s'"
  shows "measuredClockPeriod s' = measuredClockPeriod s \<and> currentStep s' = currentStep s
    \<and> masterPattern s' = masterPattern s"
  using assms
  by (auto simp: setOutputs_def Let_def pulse_process_def split: if_splits dest!: bindE_Inr)

lemma updateLights_keeps:
  "measuredClockPeriod (updateLights inp s) = measuredClockPeriod s
   \<and> currentStep (updateLights inp s) = currentStep s
   \<and> masterPattern (updateLights inp s) = masterPattern s"
  by (simp add: updateLights_def Let_def)



lemma process_stages:
  assumes "process inp s = Inr s'"
  obtains s2 s4 s5 where
    "updateDisplayPattern inp (s\<lparr>cachedPatternLength := in_patternLength inp,
        cachedScale := in_scale inp, cachedRootNote := in_rootNote inp\<rparr>) = Inr s2"
    "(if in_clockRising inp then handleClock inp (handleTriggers inp s2)
      else Inr (handleTriggers inp s2)) = Inr s4"
    "setOutputs inp (processSlide s4) = Inr s5"
    "s' = updateLights inp s5"
  using assms unfolding process_def Let_def by (auto dest!: bindE_Inr)





lemma process_example_adopted:
  "\<not> isl (process example_input (example_state\<lparr>timeSinceLastClock := 16383 / 32768\<rparr>))"
  by (simp add: example_defs engine_defs pattern_defs f32_eval upt_conv_Cons)


section \<open>Array bounds\<close>

lemma bindE_no_error:
  assumes "m \<noteq> Inl e" "\<And>x. m = Inr x \<Longrightarrow> f x \<noteq> Inl e"
  shows "bindE m f \<noteq> Inl e"
  using assms by (cases m) (simp_all add: bindE_def)

lemma collectE_no_error:
  assumes "\<And>m. m \<in> set ms \<Longrightarrow> m \<noteq> Inl e"
  shows "collectE ms \<noteq> Inl e"
  using assms
proof (induction ms)
  case Nil
  then show ?case by simp
next
  case (Cons m ms)
  have "collectE ms \<noteq> Inl e" "m \<noteq> Inl e"
    using Cons by simp_all
  then show ?case
    by (auto simp: bindE_def split: sum.splits)
qed

lemma getStep_in_bounds:
  assumes "0 \<le> i" "i < int MAX_STEPS" "array_sizes mp"
  shows "getStep mp i density spread accentsDensity slidesDensity quantizeToPool \<noteq> Inl StepOutOfBounds"
  using assms
  by (auto simp: getStep_def getScaleDegree_def array_at_def array_sizes_def Let_def
      split: option.splits sum.splits if_splits)

lemma updateDisplayPattern_in_bounds:
  assumes "array_sizes (masterPattern s)"
  shows "updateDisplayPattern inp s \<noteq> Inl StepOutOfBounds"
proof -
  have "collectE (map (\<lambda>i. getStep (masterPattern s) (int i) (in_density inp)
                 (in_spread inp) (in_accentDensity inp) (in_slideDensity inp) True)
               [0..<MAX_STEPS]) \<noteq> Inl StepOutOfBounds"
    using assms by (intro collectE_no_error) (auto simp: getStep_in_bounds)
  then show ?thesis
    by (auto simp: updateDisplayPattern_def bindE_def split: sum.splits)
qed

lemma getNoteInScale_error: "getNoteInScale n sc r oc \<noteq> Inl StepOutOfBounds"
  by (simp add: getNoteInScale_def Let_def split: option.splits)

lemma advanceStep_range:
  assumes "1 \<le> len" "- 1 \<le> cur"
  shows "0 \<le> advanceStep cur len \<and> advanceStep cur len < len"
  using assms by (simp add: advanceStep_def Let_def)

lemma advanceStep_wraps: "len \<le> cur \<Longrightarrow> advanceStep cur len = 0"
  by (simp add: advanceStep_def Let_def)

lemma prevStep_range:
  assumes "0 \<le> cur" "cur < len"
  shows "0 \<le> tmod (cur - 1 + len) len \<and> tmod (cur - 1 + len) len < len"
proof -
  have "0 \<le> cur - 1 + len" "0 < len"
    using assms by simp_all
  then show ?thesis
    by (simp add: tmod_nonneg)
qed

lemma playStep_in_bounds:
  assumes "array_sizes (masterPattern s)" "0 \<le> currentStep s"
    "currentStep s < in_patternLength inp" "in_patternLength inp \<le> int MAX_STEPS"
  shows "playStep inp s \<noteq> Inl StepOutOfBounds"
proof -
  have cur: "resolve inp s (currentStep s) \<noteq> Inl StepOutOfBounds"
    using assms by (simp add: resolve_def getStep_in_bounds)
  have "0 \<le> tmod (currentStep s - 1 + in_patternLength inp) (in_patternLength inp)"
    "tmod (currentStep s - 1 + in_patternLength inp) (in_patternLength inp) < int MAX_STEPS"
    using prevStep_range [OF assms(2,3)] assms(4) by simp_all
  then have prev: "resolve inp s (tmod (currentStep s - 1 + in_patternLength inp)
      (in_patternLength inp)) \<noteq> Inl StepOutOfBounds"
    using assms(1) by (simp add: resolve_def getStep_in_bounds)
  show ?thesis
    unfolding playStep_def Let_def
    using cur prev getNoteInScale_error
    by (auto simp: bindE_def split: sum.splits if_splits)
qed

lemma handleClock_in_bounds:
  assumes "array_sizes (masterPattern s)" "- 1 \<le> currentStep s"
    "1 \<le> in_patternLength inp" "in_patternLength inp \<le> int MAX_STEPS"
  shows "handleClock inp s \<noteq> Inl StepOutOfBounds"
proof -
  have "0 \<le> advanceStep (currentStep s) (in_patternLength inp)
      \<and> advanceStep (currentStep s) (in_patternLength inp) < in_patternLength inp"
    using assms(2,3) by (intro advanceStep_range)
  then show ?thesis
    unfolding handleClock_def Let_def
    using assms(1,4) by (intro playStep_in_bounds) (simp_all split: if_splits)
qed

lemma handleClock_step:
  assumes "handleClock inp s = Inr s'"
  shows "currentStep s' = advanceStep (currentStep s) (in_patternLength inp)
    \<and> masterPattern s' = masterPattern s"
  using assms
  by (auto simp: handleClock_def Let_def split: if_splits dest!: playStep_keeps)

lemma setOutputs_in_bounds:
  assumes "array_sizes (masterPattern s)" "in_patternLength inp \<le> int MAX_STEPS"
  shows "setOutputs inp s \<noteq> Inl StepOutOfBounds"
proof -
  have "getStep (masterPattern s) (currentStep s) (in_density inp) (in_spread inp)
      (in_accentDensity inp) (in_slideDensity inp) True \<noteq> Inl StepOutOfBounds"
    if "0 \<le> currentStep s" "currentStep s < in_patternLength inp"
  proof -
    have "currentStep s < int MAX_STEPS"
      using that(2) assms(2) by linarith
    with that(1) show ?thesis
      using assms(1) by (simp add: getStep_in_bounds)
  qed
  then show ?thesis
    by (auto simp: setOutputs_def Let_def split_def resolve_def pulse_process_def bindE_def
        split: sum.splits)
qed

lemma bubble_inner_length: "length (bubble_inner j bound ws) = length ws"
proof (induction j bound ws rule: bubble_inner.induct)
  case (1 j bound ws)
  show ?case
  proof (cases "j < bound")
    case True
    then show ?thesis
      using "1.IH" by (subst bubble_inner.simps) simp
  next
    case False
    then show ?thesis
      by (subst bubble_inner.simps) simp
  qed
qed

lemma bubble_outer_length: "length (bubble_outer i n ws) = length ws"
proof (induction i n ws rule: bubble_outer.induct)
  case (1 i n ws)
  show ?case
  proof (cases "i < n - 1")
    case True
    then show ?thesis
      using "1.IH" by (subst bubble_outer.simps) (simp add: bubble_inner_length)
  next
    case False
    then show ?thesis
      by (subst bubble_outer.simps) simp
  qed
qed

lemma generateMaster_sizes:
  assumes "length (muted out) = MAX_STEPS"
  shows "array_sizes (generateMaster seed out)"
  using assms
  by (simp add: generateMaster_def array_sizes_def split_def Let_def bubble_outer_length
      fill_loop_length)

lemma fold_update_length: "length (fold (\<lambda>i m. m[i := f i]) js xs) = length xs"
  by (induction js arbitrary: xs) simp_all

lemma clearMutes_sizes: "array_sizes mp \<Longrightarrow> array_sizes (clearMutes mp)"
  by (simp add: clearMutes_def array_sizes_def fold_update_length)

lemma handleTriggers_sizes:
  assumes "array_sizes (masterPattern s)" "- 1 \<le> currentStep s"
  shows "array_sizes (masterPattern (handleTriggers inp s))
    \<and> - 1 \<le> currentStep (handleTriggers inp s)"
proof -
  have "length (muted (masterPattern s)) = MAX_STEPS"
    using assms(1) by (simp add: array_sizes_def)
  then have "array_sizes (generateMaster seed (masterPattern s))" for seed
    by (rule generateMaster_sizes)
  then have "array_sizes (masterPattern (generateNewPattern now s))" for now
    by (simp add: generateNewPattern_def Let_def clearMutes_sizes)
  then show ?thesis
    using assms by (simp add: handleTriggers_def Let_def generateNewPattern_keeps)
qed


lemma process_in_bounds:
  assumes "array_sizes (masterPattern s)" "1 \<le> in_patternLength inp"
    "in_patternLength inp \<le> int MAX_STEPS" "- 1 \<le> currentStep s"
  shows "process inp s \<noteq> Inl StepOutOfBounds"
proof -
  define s1 where "s1 = s\<lparr>cachedPatternLength := in_patternLength inp,
    cachedScale := in_scale inp, cachedRootNote := in_rootNote inp\<rparr>"
  have s1: "array_sizes (masterPattern s1)" "- 1 \<le> currentStep s1"
    using assms by (simp_all add: s1_def)
  have d: "updateDisplayPattern inp s1 \<noteq> Inl StepOutOfBounds"
    using s1(1) by (rule updateDisplayPattern_in_bounds)
  have rest: "bindE (if in_clockRising inp then handleClock inp (handleTriggers inp s2)
        else Inr (handleTriggers inp s2))
      (\<lambda>s4. bindE (setOutputs inp (processSlide s4)) (\<lambda>s5. Inr (updateLights inp s5)))
      \<noteq> Inl StepOutOfBounds" if "updateDisplayPattern inp s1 = Inr s2" for s2
  proof -
    have s2: "array_sizes (masterPattern s2)" "- 1 \<le> currentStep s2"
      using updateDisplayPattern_keeps [OF that] s1 by simp_all
    have s3: "array_sizes (masterPattern (handleTriggers inp s2))"
      "- 1 \<le> currentStep (handleTriggers inp s2)"
      using handleTriggers_sizes [OF s2] by simp_all
    have c: "(if in_clockRising inp then handleClock inp (handleTriggers inp s2)
        else Inr (handleTriggers inp s2)) \<noteq> Inl StepOutOfBounds"
      using handleClock_in_bounds [OF s3 assms(2,3)] by simp
    have o: "setOutputs inp (processSlide s4) \<noteq> Inl StepOutOfBounds"
      if "(if in_clockRising inp then handleClock inp (handleTriggers inp s2)
        else Inr (handleTriggers inp s2)) = Inr s4" for s4
    proof -
      have "masterPattern s4 = masterPattern (handleTriggers inp s2)"
        using that handleClock_step [of inp "handleTriggers inp s2" s4]
        by (auto split: if_splits)
      then have "array_sizes (masterPattern (processSlide s4))"
        using s3(1) by (simp add: processSlide_keeps)
      then show ?thesis
        using assms(3) by (rule setOutputs_in_bounds)
    qed
    show ?thesis
      using c o by (auto simp: bindE_def split: sum.splits)
  qed
  show ?thesis
    unfolding process_def Let_def s1_def [symmetric]
    using d rest by (auto simp: bindE_def split: sum.splits)
qed

lemma process_step_index:
  assumes "process inp s = Inr s'" "array_sizes (masterPattern s)" "- 1 \<le> currentStep s"
  shows "array_sizes (masterPattern s') \<and> - 1 \<le> currentStep s'
    \<and> (in_clockRising inp \<longrightarrow>
         currentStep s' = advanceStep (currentStep (handleTriggers inp s)) (in_patternLength inp))"
proof -
  from assms(1) obtain s2 s4 s5 where st:
    "updateDisplayPattern inp (s\<lparr>cachedPatternLength := in_patternLength inp,
        cachedScale := in_scale inp, cachedRootNote := in_rootNote inp\<rparr>) = Inr s2"
    "(if in_clockRising inp then handleClock inp (handleTriggers inp s2)
      else Inr (handleTriggers inp s2)) = Inr s4"
    "setOutputs inp (processSlide s4) = Inr s5"
    "s' = updateLights inp s5"
    by (rule process_stages)
  have s2: "masterPattern s2 = masterPattern s" "currentStep s2 = currentStep s"
    using updateDisplayPattern_keeps [OF st(1)] by simp_all
  then have a2: "array_sizes (masterPattern s2)" "- 1 \<le> currentStep s2"
    using assms(2,3) by simp_all
  have t: "currentStep (handleTriggers inp s2) = currentStep (handleTriggers inp s)"
    using s2(2) by (simp add: handleTriggers_def Let_def generateNewPattern_keeps)
  have s3: "array_sizes (masterPattern (handleTriggers inp s2))"
    "- 1 \<le> currentStep (handleTriggers inp s2)"
    using handleTriggers_sizes [OF a2] by simp_all
  have s4: "masterPattern s4 = masterPattern (handleTriggers inp s2)"
    "currentStep s4 = (if in_clockRising inp
       then advanceStep (currentStep (handleTriggers inp s)) (in_patternLength inp)
       else currentStep (handleTriggers inp s2))"
    using st(2) handleClock_step [of inp "handleTriggers inp s2" s4] t
    by (auto split: if_splits)
  have s': "masterPattern s' = masterPattern s4" "currentStep s' = currentStep s4"
    using setOutputs_keeps [OF st(3)] by (simp_all add: st(4) updateLights_keeps processSlide_keeps)
  have "- 1 \<le> advanceStep c len" if "- 1 \<le> c" for c len
    using that by (simp add: advanceStep_def Let_def)
  then have "- 1 \<le> advanceStep (currentStep (handleTriggers inp s)) (in_patternLength inp)"
    using s3(2) t by simp
  then show ?thesis
    using s' s4 s3 by simp
qed

text \<open>
  C8: from every state whose step index is at least \<open>-1\<close> (which \<^verbatim>\<open>process\<close> preserves),
  with a pattern length in \<open>[1, 64]\<close>, the step index after a clock advance lies in
  \<open>[0, patternLength)\<close>, an index at or beyond a shrunk pattern length wraps to \<open>0\<close> on the very
  next advance, and no call of \<^verbatim>\<open>process\<close> reads \<open>steps[]\<close> or \<open>muted[]\<close> out of bounds.
\<close>

theorem C8_step_index_in_bounds:
  assumes "array_sizes (masterPattern s)" "1 \<le> in_patternLength inp"
    "in_patternLength inp \<le> int MAX_STEPS" "- 1 \<le> currentStep s"
  shows "process inp s \<noteq> Inl StepOutOfBounds
    \<and> (process inp s = Inr s' \<longrightarrow>
         array_sizes (masterPattern s') \<and> - 1 \<le> currentStep s'
         \<and> (in_clockRising inp \<longrightarrow>
              0 \<le> currentStep s' \<and> currentStep s' < in_patternLength inp))
    \<and> 0 \<le> advanceStep (currentStep s) (in_patternLength inp)
    \<and> advanceStep (currentStep s) (in_patternLength inp) < in_patternLength inp
    \<and> (in_patternLength inp \<le> currentStep s \<longrightarrow>
         advanceStep (currentStep s) (in_patternLength inp) = 0)"
proof -
  have "- 1 \<le> currentStep (handleTriggers inp s)"
    using handleTriggers_sizes [OF assms(1,4)] by simp
  then have "0 \<le> advanceStep (currentStep (handleTriggers inp s)) (in_patternLength inp)
    \<and> advanceStep (currentStep (handleTriggers inp s)) (in_patternLength inp)
        < in_patternLength inp"
    using assms(2) by (intro advanceStep_range)
  then have "process inp s = Inr s' \<longrightarrow>
         array_sizes (masterPattern s') \<and> - 1 \<le> currentStep s'
         \<and> (in_clockRising inp \<longrightarrow>
              0 \<le> currentStep s' \<and> currentStep s' < in_patternLength inp)"
    using process_step_index [OF _ assms(1,4), of inp s'] by auto
  then show ?thesis
    using process_in_bounds [OF assms] advanceStep_range [OF assms(2,4)]
      advanceStep_wraps [of "in_patternLength inp" "currentStep s"]
    by blast
qed

lemma array_sizes_example: "array_sizes (masterPattern example_state)"
  by (simp add: example_defs array_sizes_def MAX_STEPS_def BAR_LEN_def SCALE_SIZE_def)

theorem C8_step_index_in_bounds_witness:
  "array_sizes (masterPattern (example_state\<lparr>timeSinceLastClock := 16383 / 32768\<rparr>))
   \<and> 1 \<le> in_patternLength example_input
   \<and> in_patternLength example_input \<le> int MAX_STEPS
   \<and> - 1 \<le> currentStep (example_state\<lparr>timeSinceLastClock := 16383 / 32768\<rparr>)
   \<and> in_clockRising example_input
   \<and> process example_input (example_state\<lparr>timeSinceLastClock := 16383 / 32768\<rparr>)
       = Inr (projr (process example_input (example_state\<lparr>timeSinceLastClock := 16383 / 32768\<rparr>)))
   \<and> 0 \<le> currentStep
         (projr (process example_input (example_state\<lparr>timeSinceLastClock := 16383 / 32768\<rparr>)))
   \<and> currentStep
         (projr (process example_input (example_state\<lparr>timeSinceLastClock := 16383 / 32768\<rparr>)))
       < 16"
proof -
  have a: "array_sizes (masterPattern (example_state\<lparr>timeSinceLastClock := 16383 / 32768\<rparr>))"
    using array_sizes_example by simp
  have b: "1 \<le> in_patternLength example_input" "in_patternLength example_input \<le> int MAX_STEPS"
    "in_patternLength example_input = 16" "in_clockRising example_input"
    by (simp_all add: example_defs MAX_STEPS_def)
  have c: "- 1 \<le> currentStep (example_state\<lparr>timeSinceLastClock := 16383 / 32768\<rparr>)"
    by (simp add: example_defs)
  have r: "process example_input (example_state\<lparr>timeSinceLastClock := 16383 / 32768\<rparr>)
       = Inr (projr (process example_input (example_state\<lparr>timeSinceLastClock := 16383 / 32768\<rparr>)))"
    using process_example_adopted by simp
  from C8_step_index_in_bounds [OF a b(1,2) c,
      of "projr (process example_input (example_state\<lparr>timeSinceLastClock := 16383 / 32768\<rparr>))"]
  show ?thesis
    using a b c r by simp
qed


end
